theory Spec2Isabelle
  imports Main "HOL-Library.Sublist" "HOL-Library.Monad_Syntax" "HOL-Library.AList"
begin

section \<open>Strings and character classes\<close>

text \<open>
  A Python \<open>str\<close> is modelled as a \<open>string\<close> whose characters are the code points
  below 256. In that range the class \<open>\d\<close> of the \<open>re\<close> module is exactly the ten ASCII
  digits, and \<open>\s\<close> and \<open>str.strip\<close> agree on the twelve characters for which
  \<open>str.isspace\<close> holds.
\<close>

definition is_digit :: "char \<Rightarrow> bool" where
  "is_digit c \<longleftrightarrow> c \<in> set ''0123456789''"

definition is_upper :: "char \<Rightarrow> bool" where
  "is_upper c \<longleftrightarrow> c \<in> set ''ABCDEFGHIJKLMNOPQRSTUVWXYZ''"

definition is_upper_or_digit :: "char \<Rightarrow> bool" where
  "is_upper_or_digit c \<longleftrightarrow> is_upper c \<or> is_digit c"

definition whitespace_chars :: "char list" where
  "whitespace_chars =
     [CHR 0x09, CHR 0x0A, CHR 0x0B, CHR 0x0C, CHR 0x0D,
      CHR 0x1C, CHR 0x1D, CHR 0x1E, CHR 0x1F, CHR 0x20, CHR 0x85, CHR 0xA0]"

definition is_space :: "char \<Rightarrow> bool" where
  "is_space c \<longleftrightarrow> c \<in> set whitespace_chars"

text \<open>\<open>s.replace(old, new)\<close>: every non-overlapping occurrence, leftmost first. With an
  empty \<open>old\<close> and an empty \<open>new\<close> Python returns \<open>s\<close> itself.\<close>

function py_replace :: "string \<Rightarrow> string \<Rightarrow> string \<Rightarrow> string" where
  "py_replace old new [] = []"
| "py_replace old new (c # cs) =
     (if old \<noteq> [] \<and> prefix old (c # cs)
      then new @ py_replace old new (drop (length old) (c # cs))
      else c # py_replace old new cs)"
  by pat_completeness auto
termination
  by (relation "measure (\<lambda>(old, new, s). length s)") (auto simp: neq_Nil_conv)

text \<open>\<open>s.strip()\<close> removes the whitespace at both ends.\<close>

definition lstrip :: "string \<Rightarrow> string" where
  "lstrip s = dropWhile is_space s"

definition rstrip :: "string \<Rightarrow> string" where
  "rstrip s = rev (dropWhile is_space (rev s))"

definition strip :: "string \<Rightarrow> string" where
  "strip s = rstrip (lstrip s)"

text \<open>\<open>re.sub(r'\s+', ' ', s)\<close>: each maximal run of whitespace becomes one space.\<close>

function sub_whitespace :: "string \<Rightarrow> string" where
  "sub_whitespace [] = []"
| "sub_whitespace (c # cs) =
     (if is_space c then CHR '' '' # sub_whitespace (dropWhile is_space cs)
      else c # sub_whitespace cs)"
  by pat_completeness auto
termination
  by (relation "measure length") (auto simp: length_dropWhile_le less_Suc_eq_le)

text \<open>\<open>s.zfill(width)\<close>: zeros on the left, after a leading sign.\<close>

definition zfill :: "nat \<Rightarrow> string \<Rightarrow> string" where
  "zfill width s =
     (if width \<le> length s then s
      else (case s of
              c # cs \<Rightarrow>
                (if c = CHR ''+'' \<or> c = CHR ''-''
                 then c # replicate (width - length s) CHR ''0'' @ cs
                 else replicate (width - length s) CHR ''0'' @ s)
            | [] \<Rightarrow> replicate (width - length s) CHR ''0''))"

subsection \<open>Integers to and from text\<close>

definition digit_char :: "nat \<Rightarrow> char" where
  "digit_char d = ''0123456789'' ! (d mod 10)"

text \<open>The value of a digit is its place among the ten digits.\<close>

definition digit_val :: "char \<Rightarrow> nat" where
  "digit_val c = length (takeWhile (\<lambda>d. d \<noteq> c) ''0123456789'')"

text \<open>\<open>str(n)\<close> for a natural number and for an integer.\<close>

fun str_nat :: "nat \<Rightarrow> string" where
  "str_nat n = (if n < 10 then [digit_char n] else str_nat (n div 10) @ [digit_char (n mod 10)])"

declare str_nat.simps [simp del]

definition str_int :: "int \<Rightarrow> string" where
  "str_int i = (if i < 0 then CHR ''-'' # str_nat (nat (- i)) else str_nat (nat i))"

text \<open>
  \<open>int(s)\<close> in base ten. Whitespace at both ends is dropped, one sign is allowed, and the
  body is made of digits, with single underscores allowed between two digits. Anything
  else raises \<open>ValueError\<close>, which is \<open>None\<close> here. The whitespace that \<open>int\<close>
  drops is not all of \<open>str.isspace\<close>: the four separators \<open>0x1C\<close> to \<open>0x1F\<close> are kept
  and make the conversion fail. Python's integers are unbounded, and so is \<open>int\<close>; the
  interpreter's optional limit on the number of digits of a conversion is not modelled.
\<close>

definition int_whitespace_chars :: "char list" where
  "int_whitespace_chars =
     [CHR 0x09, CHR 0x0A, CHR 0x0B, CHR 0x0C, CHR 0x0D, CHR 0x20, CHR 0x85, CHR 0xA0]"

definition is_int_space :: "char \<Rightarrow> bool" where
  "is_int_space c \<longleftrightarrow> c \<in> set int_whitespace_chars"

definition int_strip :: "string \<Rightarrow> string" where
  "int_strip s = rev (dropWhile is_int_space (rev (dropWhile is_int_space s)))"

fun int_body :: "string \<Rightarrow> bool" where
  "int_body [] = False"
| "int_body [c] = is_digit c"
| "int_body (c # d # cs) =
     (is_digit c \<and> (if d = CHR ''_'' then int_body cs else int_body (d # cs)))"

definition body_value :: "string \<Rightarrow> nat" where
  "body_value s = foldl (\<lambda>a c. 10 * a + digit_val c) 0 (filter (\<lambda>c. c \<noteq> CHR ''_'') s)"

definition py_int :: "string \<Rightarrow> int option" where
  "py_int s =
     (case int_strip s of
        [] \<Rightarrow> None
      | c # cs \<Rightarrow>
          (if c = CHR ''-'' then (if int_body cs then Some (- int (body_value cs)) else None)
           else if c = CHR ''+'' then (if int_body cs then Some (int (body_value cs)) else None)
           else (if int_body (c # cs) then Some (int (body_value (c # cs))) else None)))"

section \<open>Version normalisation: \<open>format_version\<close>\<close>

text \<open>
  \<open>re.match(r'^\d{1,2}\.\d{2}$', s)\<close>: one or two digits, a dot, two digits; \<open>$\<close> also
  matches just before a newline that ends the string.
\<close>

definition dotted_core :: "string \<Rightarrow> bool" where
  "dotted_core s =
     (case s of
        [a, p, b, c] \<Rightarrow> is_digit a \<and> p = CHR ''.'' \<and> is_digit b \<and> is_digit c
      | [a, a', p, b, c] \<Rightarrow> is_digit a \<and> is_digit a' \<and> p = CHR ''.'' \<and> is_digit b \<and> is_digit c
      | _ \<Rightarrow> False)"

definition match_dotted :: "string \<Rightarrow> bool" where
  "match_dotted s \<longleftrightarrow>
     dotted_core s \<or> (s \<noteq> [] \<and> last s = CHR 0x0A \<and> dotted_core (butlast s))"

definition format_version :: "string \<Rightarrow> string" where
  "format_version version_str =
     (if version_str = [] then ''1.00''
      else if match_dotted version_str then version_str
      else if 3 \<le> length version_str then
        (let head = take (length version_str - 2) version_str;
             minor = drop (length version_str - 2) version_str
         in if head \<noteq> [] then
              (case py_int head of
                 None \<Rightarrow> version_str
               | Some i \<Rightarrow> str_int i @ ''.'' @ minor)
            else ''1'' @ ''.'' @ minor)
      else ''1.'' @ zfill 2 version_str)"

section \<open>Sanitising a file name: \<open>sanitize_filename\<close>\<close>

definition invalid_chars :: "char list" where
  "invalid_chars =
     [CHR ''<'', CHR ''>'', CHR '':'', CHR 0x22, CHR ''/'', CHR 0x5C, CHR ''|'', CHR ''?'',
      CHR ''*'']"

definition sanitize_filename :: "string \<Rightarrow> string" where
  "sanitize_filename filename =
     strip (sub_whitespace (foldl (\<lambda>name char. py_replace [char] [] name) filename invalid_chars))"

section \<open>Parsing a package file name: \<open>parse_filename\<close>\<close>

text \<open>
  The three regular expressions are matched with \<open>re.match\<close>, that is from the start of
  the string and with anything allowed after the match. Each is a sequence of character
  runs and literals in which every greedy run is followed by a literal outside the run's
  class (or, for the last run, by an optional group that cannot fail), so the longest run
  is the only one the backtracking matcher can accept. The scanners below consume such
  runs and literals; each returns the rest of the input.
\<close>

definition lit :: "char \<Rightarrow> string \<Rightarrow> string option" where
  "lit c s = (case s of [] \<Rightarrow> None | x # xs \<Rightarrow> if x = c then Some xs else None)"

definition many1 :: "(char \<Rightarrow> bool) \<Rightarrow> string \<Rightarrow> (string \<times> string) option" where
  "many1 P s = (if takeWhile P s = [] then None else Some (takeWhile P s, dropWhile P s))"

definition exactly :: "nat \<Rightarrow> (char \<Rightarrow> bool) \<Rightarrow> string \<Rightarrow> (string \<times> string) option" where
  "exactly n P s =
     (if n \<le> length s \<and> list_all P (take n s) then Some (take n s, drop n s) else None)"

text \<open>The common part of the two full forms:
  \<open>([A-Z]{2}\d+)-([A-Z]{4}\d+)_\d+-([A-Z0-9]+)-A(\d+)-V(\d+)\<close>. It returns the five
  groups and the rest of the input.\<close>

definition full_form :: "string \<Rightarrow> (string option list \<times> string) option" where
  "full_form s = do {
     (p1, r) \<leftarrow> exactly 2 is_upper s;
     (p2, r) \<leftarrow> many1 is_digit r;
     r \<leftarrow> lit CHR ''-'' r;
     (c1, r) \<leftarrow> exactly 4 is_upper r;
     (c2, r) \<leftarrow> many1 is_digit r;
     r \<leftarrow> lit CHR ''_'' r;
     (_, r) \<leftarrow> many1 is_digit r;
     r \<leftarrow> lit CHR ''-'' r;
     (t, r) \<leftarrow> many1 is_upper_or_digit r;
     r \<leftarrow> lit CHR ''-'' r;
     r \<leftarrow> lit CHR ''A'' r;
     (a, r) \<leftarrow> many1 is_digit r;
     r \<leftarrow> lit CHR ''-'' r;
     r \<leftarrow> lit CHR ''V'' r;
     (v, r) \<leftarrow> many1 is_digit r;
     Some ([Some (p1 @ p2), Some (c1 @ c2), Some t, Some a, Some v], r)
   }"

text \<open>The optional group \<open>(?:_(\d+))?\<close>: the part when it takes part in the match,
  \<open>None\<close> (Python's \<open>None\<close> in \<open>groups()\<close>) when it does not.\<close>

definition optional_part :: "string \<Rightarrow> string option" where
  "optional_part r =
     (case lit CHR ''_'' r of
        None \<Rightarrow> None
      | Some r' \<Rightarrow> (case many1 is_digit r' of None \<Rightarrow> None | Some (p, _) \<Rightarrow> Some p))"

text \<open>Each pattern gives \<open>match.groups()\<close> when it matches.\<close>

definition pattern_standard :: "string \<Rightarrow> string option list option" where
  "pattern_standard s =
     (case full_form s of None \<Rightarrow> None | Some (gs, r) \<Rightarrow> Some (gs @ [optional_part r]))"

definition pattern_alternative :: "string \<Rightarrow> string option list option" where
  "pattern_alternative s = (case full_form s of None \<Rightarrow> None | Some (gs, r) \<Rightarrow> Some gs)"

text \<open>\<open>([A-Z]{4}\d+)-([A-Z0-9]+)-V(\d+)\<close>\<close>

definition pattern_simple :: "string \<Rightarrow> string option list option" where
  "pattern_simple s = do {
     (c1, r) \<leftarrow> exactly 4 is_upper s;
     (c2, r) \<leftarrow> many1 is_digit r;
     r \<leftarrow> lit CHR ''-'' r;
     (t, r) \<leftarrow> many1 is_upper_or_digit r;
     r \<leftarrow> lit CHR ''-'' r;
     r \<leftarrow> lit CHR ''V'' r;
     (v, r) \<leftarrow> many1 is_digit r;
     Some [Some (c1 @ c2), Some t, Some v]
   }"

definition patterns :: "(string \<Rightarrow> string option list option) list" where
  "patterns = [pattern_standard, pattern_alternative, pattern_simple]"

text \<open>The dictionary that \<open>parse_filename\<close> returns. Its key \<open>'version'\<close> is the field
  \<open>file_version\<close> here; a value is \<open>None\<close> where Python's is.\<close>

record parsed_data =
  publisher :: "string option"
  cusa :: "string option"
  title_code :: "string option"
  app_version :: "string option"
  file_version :: "string option"
  part :: "string option"

text \<open>The loop over the patterns, applied to \<open>base_name\<close>.\<close>

fun match_patterns ::
  "(string \<Rightarrow> string option list option) list \<Rightarrow> string \<Rightarrow> parsed_data option" where
  "match_patterns [] base_name = None"
| "match_patterns (pattern # rest) base_name =
     (case pattern base_name of
        None \<Rightarrow> match_patterns rest base_name
      | Some groups \<Rightarrow>
          (if 5 \<le> length groups then
             Some \<lparr>publisher = groups ! 0, cusa = groups ! 1, title_code = groups ! 2,
                   app_version = groups ! 3, file_version = groups ! 4,
                   part = (if 5 < length groups \<and> groups ! 5 \<noteq> None \<and> groups ! 5 \<noteq> Some []
                           then groups ! 5 else None)\<rparr>
           else if 3 \<le> length groups then
             Some \<lparr>publisher = None, cusa = groups ! 0, title_code = groups ! 1,
                   app_version = None, file_version = groups ! 2, part = None\<rparr>
           else match_patterns rest base_name))"

definition parse_filename :: "string \<Rightarrow> parsed_data option" where
  "parse_filename filename = match_patterns patterns (py_replace ''.pkg'' [] filename)"

text \<open>
  What "strip the package extension" says: the name without its final \<open>.pkg\<close>, and the
  parser that would follow from it. These two follow the specification's words and are
  compared with \<open>parse_filename\<close>.
\<close>

definition strip_extension_spec :: "string \<Rightarrow> string" where
  "strip_extension_spec filename =
     (if suffix ''.pkg'' filename then take (length filename - 4) filename else filename)"

definition parse_filename_spec :: "string \<Rightarrow> parsed_data option" where
  "parse_filename_spec filename = match_patterns patterns (strip_extension_spec filename)"

text \<open>The identifier pattern \<open>[A-Z]{4}\d+\<close>, matched against a whole string.\<close>

definition is_identifier :: "string \<Rightarrow> bool" where
  "is_identifier s \<longleftrightarrow>
     4 < length s \<and> list_all is_upper (take 4 s) \<and> list_all is_digit (drop 4 s)"

section \<open>The metadata store and the two loaders\<close>

text \<open>One value of \<open>game_database\<close>. The dictionary itself is an association list in
  insertion order; assigning to a key that is present replaces its value in place, as a
  Python \<open>dict\<close> does.\<close>

record game_info =
  name :: string
  version :: string
  source :: string

type_synonym database = "(string \<times> game_info) list"

text \<open>\<open>re.search(r'(CUSA\d+)', s)\<close>: the leftmost place where \<open>CUSA\<close> and a digit
  follow, with all the digits there.\<close>

definition match_cusa :: "string \<Rightarrow> string option" where
  "match_cusa s =
     (if prefix ''CUSA'' s \<and> takeWhile is_digit (drop 4 s) \<noteq> []
      then Some (''CUSA'' @ takeWhile is_digit (drop 4 s)) else None)"

fun search_cusa :: "string \<Rightarrow> string option" where
  "search_cusa [] = None"
| "search_cusa (c # cs) =
     (case match_cusa (c # cs) of Some m \<Rightarrow> Some m | None \<Rightarrow> search_cusa cs)"

text \<open>
  A CSV file as \<open>pandas.read_csv\<close> gives it. A row holds the text that \<open>str\<close> makes of
  its cells; \<open>Version\<close> is \<open>None\<close> when the frame has no such column. A file that cannot
  be read raises inside the \<open>try\<close>; a frame without the \<open>Title_ID\<close> or \<open>Title_Name\<close>
  column is skipped.
\<close>

record csv_row =
  Title_ID :: string
  Title_Name :: string
  Version :: "string option"

datatype csv_file = CsvUnreadable | CsvWithoutColumns | CsvRows "csv_row list"

fun load_csv_rows :: "string \<Rightarrow> csv_row list \<Rightarrow> database \<times> nat \<Rightarrow> database \<times> nat" where
  "load_csv_rows csv_path [] (db, loaded_count) = (db, loaded_count)"
| "load_csv_rows csv_path (row # rest) (db, loaded_count) =
     (let title_id = strip (Title_ID row);
          title_name = strip (Title_Name row)
      in case search_cusa title_id of
           Some cusa_id \<Rightarrow>
             (let ver = strip (case Version row of None \<Rightarrow> ''1.00'' | Some v \<Rightarrow> v)
              in load_csv_rows csv_path rest
                   (AList.update cusa_id
                      \<lparr>name = title_name, version = ver, source = ''CSV:'' @ csv_path\<rparr> db,
                    loaded_count + 1))
         | None \<Rightarrow> load_csv_rows csv_path rest (db, loaded_count))"

definition load_csv_data :: "string \<Rightarrow> csv_file \<Rightarrow> database \<Rightarrow> database \<times> nat" where
  "load_csv_data csv_path df db =
     (case df of
        CsvUnreadable \<Rightarrow> (db, 0)
      | CsvWithoutColumns \<Rightarrow> (db, 0)
      | CsvRows rows \<Rightarrow> load_csv_rows csv_path rows (db, 0))"

text \<open>
  A JSON document as \<open>json.load\<close> gives it. An entry of \<open>results\<close> is a dictionary whose
  values, where present, are strings; \<open>has_updates\<close> says that the key \<open>updates\<close> is
  present.
\<close>

record json_result =
  status :: "string option"
  has_updates :: bool
  title_id :: "string option"
  title_name :: "string option"
  sony_game_name :: "string option"
  latest_version :: "string option"

datatype json_file = JsonUnreadable | JsonWithoutResults | JsonResults "json_result list"

definition get_or :: "'a option \<Rightarrow> 'a \<Rightarrow> 'a" where
  "get_or v d = (case v of None \<Rightarrow> d | Some x \<Rightarrow> x)"

fun load_json_results ::
  "string \<Rightarrow> json_result list \<Rightarrow> database \<times> nat \<Rightarrow> database \<times> nat" where
  "load_json_results json_path [] (db, loaded_count) = (db, loaded_count)"
| "load_json_results json_path (result # rest) (db, loaded_count) =
     (if status result = Some ''found'' \<and> has_updates result then
        (let tid = get_or (title_id result) [];
             tname = get_or (title_name result) (get_or (sony_game_name result) [])
         in case search_cusa tid of
              Some cusa_id \<Rightarrow>
                (if tname \<noteq> [] then
                   load_json_results json_path rest
                     (AList.update cusa_id
                        \<lparr>name = tname, version = get_or (latest_version result) ''1.00'',
                         source = ''JSON:'' @ json_path\<rparr> db,
                      loaded_count + 1)
                 else load_json_results json_path rest (db, loaded_count))
            | None \<Rightarrow> load_json_results json_path rest (db, loaded_count))
      else load_json_results json_path rest (db, loaded_count))"

definition load_json_data :: "string \<Rightarrow> json_file \<Rightarrow> database \<Rightarrow> database \<times> nat" where
  "load_json_data json_path data db =
     (case data of
        JsonUnreadable \<Rightarrow> (db, 0)
      | JsonWithoutResults \<Rightarrow> (db, 0)
      | JsonResults results \<Rightarrow> load_json_results json_path results (db, 0))"

section \<open>Generating the new name: \<open>generate_new_filename\<close>\<close>

definition generate_new_filename :: "database \<Rightarrow> parsed_data \<Rightarrow> string \<Rightarrow> string option" where
  "generate_new_filename db parsed original_filename =
     (case cusa parsed of
        None \<Rightarrow> None
      | Some c \<Rightarrow>
          (if c = [] then None
           else case map_of db c of
                  None \<Rightarrow> None
                | Some game_info \<Rightarrow>
                    (let game_name = name game_info;
                         formatted_version = format_version (version game_info);
                         part_suffix =
                           (case part parsed of
                              None \<Rightarrow> []
                            | Some p \<Rightarrow> if p = [] then [] else ''_Part'' @ p)
                     in Some (sanitize_filename
                          (game_name @ '' [UPDATE '' @ formatted_version @ ''][''
                             @ c @ '']'' @ part_suffix @ ''.pkg'')))))"

section \<open>The directory, the rename step and the pass over the directory\<close>

text \<open>
  The target directory is the list of its entry names, in the order in which the
  operating system enumerates them. \<open>fault\<close> stands for the environment: for a source
  and a target name it gives the text of the \<open>OSError\<close> that a rename of the one to the
  other raises (permissions, a busy file), or \<open>None\<close> when the rename goes through.
\<close>

record filesystem =
  entries :: "string list"
  fault :: "string \<Rightarrow> string \<Rightarrow> string option"

definition no_fault :: "string \<Rightarrow> string \<Rightarrow> string option" where
  "no_fault old_name new_filename = None"

definition path_exists :: "filesystem \<Rightarrow> string \<Rightarrow> bool" where
  "path_exists fs filename \<longleftrightarrow> filename \<in> set (entries fs)"

text \<open>\<open>old_path.rename(new_path)\<close> inside the directory: the entry takes its new name in
  place, and replaces an entry that had that name. A missing source or a fault of the
  environment raises, and then nothing changes.\<close>

definition path_rename :: "filesystem \<Rightarrow> string \<Rightarrow> string \<Rightarrow> string + filesystem" where
  "path_rename fs old_name new_filename =
     (if \<not> path_exists fs old_name then Inl ''[Errno 2] No such file or directory''
      else case fault fs old_name new_filename of
             Some e \<Rightarrow> Inl e
           | None \<Rightarrow>
               Inr (fs\<lparr>entries :=
                      map (\<lambda>n. if n = old_name then new_filename else n)
                        (filter (\<lambda>n. n = old_name \<or> n \<noteq> new_filename) (entries fs))\<rparr>))"

text \<open>\<open>target_directory.glob("*.pkg")\<close>\<close>

definition glob_pkg :: "filesystem \<Rightarrow> string list" where
  "glob_pkg fs = filter (suffix ''.pkg'') (entries fs)"

record renamed_entry =
  original :: string
  new :: string
  path :: string

text \<open>An entry of \<open>errors\<close>; its key \<open>'file'\<close> is the field \<open>file_name\<close>.\<close>

record error_entry =
  file_name :: string
  error :: string

text \<open>The fields of a \<open>PS4FileRenamer\<close> object (the logger apart).\<close>

record renamer =
  target_directory :: string
  game_database :: database
  renamed_files :: "renamed_entry list"
  errors :: "error_entry list"

text \<open>
  \<open>rename_file\<close> returns the object, the directory and the boolean. Its
  \<open>new_filename\<close> is an entry name of the directory, as \<open>sanitize_filename\<close> leaves no
  separator in it.
\<close>

definition rename_file ::
  "renamer \<Rightarrow> filesystem \<Rightarrow> string \<Rightarrow> string \<Rightarrow> bool \<Rightarrow> renamer \<times> filesystem \<times> bool" where
  "rename_file self fs old_name new_filename dry_run =
     (if path_exists fs new_filename then (self, fs, False)
      else if \<not> dry_run then
        (case path_rename fs old_name new_filename of
           Inr fs' \<Rightarrow>
             (self\<lparr>renamed_files := renamed_files self @
                [\<lparr>original = old_name, new = new_filename, path = target_directory self\<rparr>]\<rparr>,
              fs', True)
         | Inl e \<Rightarrow>
             (self\<lparr>errors := errors self @ [\<lparr>file_name = old_name, error = e\<rparr>]\<rparr>, fs, False))
      else
        (self\<lparr>renamed_files := renamed_files self @
           [\<lparr>original = old_name, new = new_filename, path = target_directory self\<rparr>]\<rparr>,
         fs, True))"

text \<open>The dictionary \<open>stats\<close>; its key \<open>'errors'\<close> is the field \<open>error_count\<close>.\<close>

record stats =
  total_files :: nat
  processed :: nat
  renamed :: nat
  error_count :: nat
  skipped :: nat

text \<open>
  What happened to one file: the branch of the loop body that it took. \<open>Renamed\<close>,
  \<open>SkippedCollision\<close> and \<open>Failed\<close> carry the generated target name, and \<open>Failed\<close>
  also carries the message stored in \<open>errors\<close>.
\<close>

datatype outcome =
  SkippedNoParse
| SkippedNoMetadata
| SkippedCollision string
| Renamed string
| Failed string string




type_synonym pass_state = "renamer \<times> filesystem \<times> stats \<times> (string \<times> outcome) list"

text \<open>
  The body of the loop of \<open>process_directory\<close> for one file. The last component of the
  state is the sequence of outcomes so far, which the source does not keep: it is read
  off the boolean of \<open>rename_file\<close>, the existence test and the entry added to
  \<open>errors\<close>. With the typed inputs above, parsing and generating do not raise, and a
  failing rename is caught inside \<open>rename_file\<close>. An existence test that itself raises
  (a target name longer than the file system allows) is outside the model; the handler
  around the body would then count one error and add nothing to either list.
\<close>

definition process_file :: "bool \<Rightarrow> string \<Rightarrow> pass_state \<Rightarrow> pass_state" where
  "process_file dry_run pkg_file state =
     (case state of (self, fs, st, trace) \<Rightarrow>
        (case parse_filename pkg_file of
           None \<Rightarrow>
             (self, fs, st\<lparr>error_count := error_count st + 1\<rparr>,
              trace @ [(pkg_file, SkippedNoParse)])
         | Some parsed \<Rightarrow>
             (case generate_new_filename (game_database self) parsed pkg_file of
                None \<Rightarrow>
                  (self, fs, st\<lparr>error_count := error_count st + 1\<rparr>,
                   trace @ [(pkg_file, SkippedNoMetadata)])
              | Some new_filename \<Rightarrow>
                  (if new_filename = [] then
                     (self, fs, st\<lparr>error_count := error_count st + 1\<rparr>,
                      trace @ [(pkg_file, SkippedNoMetadata)])
                   else
                     (case rename_file self fs pkg_file new_filename dry_run of
                        (self', fs', ok) \<Rightarrow>
                          (if ok then
                             (self', fs',
                              st\<lparr>renamed := renamed st + 1, processed := processed st + 1\<rparr>,
                              trace @ [(pkg_file, Renamed new_filename)])
                           else
                             (self', fs',
                              st\<lparr>error_count := error_count st + 1,
                                 processed := processed st + 1\<rparr>,
                              trace @ [(pkg_file,
                                 if path_exists fs new_filename
                                 then SkippedCollision new_filename
                                 else Failed new_filename (error (last (errors self'))))])))))))"

fun process_files :: "bool \<Rightarrow> string list \<Rightarrow> pass_state \<Rightarrow> pass_state" where
  "process_files dry_run [] state = state"
| "process_files dry_run (pkg_file # rest) state =
     process_files dry_run rest (process_file dry_run pkg_file state)"

definition process_directory :: "bool \<Rightarrow> renamer \<Rightarrow> filesystem \<Rightarrow> pass_state" where
  "process_directory dry_run self fs =
     (let pkg_files = glob_pkg fs
      in process_files dry_run pkg_files
           (self, fs,
            \<lparr>total_files = length pkg_files, processed = 0, renamed = 0, error_count = 0,
             skipped = 0\<rparr>,
            []))"

text \<open>The components of the result of a pass.\<close>

definition pass_renamer :: "pass_state \<Rightarrow> renamer" where
  "pass_renamer state = fst state"

definition pass_filesystem :: "pass_state \<Rightarrow> filesystem" where
  "pass_filesystem state = fst (snd state)"

definition pass_stats :: "pass_state \<Rightarrow> stats" where
  "pass_stats state = fst (snd (snd state))"

definition pass_outcomes :: "pass_state \<Rightarrow> (string \<times> outcome) list" where
  "pass_outcomes state = snd (snd (snd state))"

text \<open>The dictionary that \<open>save_report\<close> writes.\<close>

record report =
  statistics :: stats
  report_dry_run :: bool
  database_size :: nat
  report_renamed_files :: "renamed_entry list"
  report_errors :: "error_entry list"
  report_target_directory :: string

definition save_report :: "renamer \<Rightarrow> stats \<Rightarrow> bool \<Rightarrow> report" where
  "save_report self st dry_run =
     \<lparr>statistics = st, report_dry_run = dry_run,
      database_size = length (game_database self),
      report_renamed_files = renamed_files self, report_errors = errors self,
      report_target_directory = target_directory self\<rparr>"

text \<open>
  The two passes of \<open>main\<close>: the dry run, the reset of the two lists, and the committed
  pass over the directory as the dry run left it.
\<close>

definition reset :: "renamer \<Rightarrow> renamer" where
  "reset self = self\<lparr>renamed_files := [], errors := []\<rparr>"



text \<open>The target name that the pass generates for a file, if any.\<close>

definition planned_target :: "database \<Rightarrow> string \<Rightarrow> string option" where
  "planned_target db pkg_file =
     (case parse_filename pkg_file of
        None \<Rightarrow> None
      | Some parsed \<Rightarrow>
          (case generate_new_filename db parsed pkg_file of
             None \<Rightarrow> None
           | Some new_filename \<Rightarrow> if new_filename = [] then None else Some new_filename))"

section \<open>Predicates used in the statements\<close>

text \<open>The number that a run of digits denotes.\<close>

definition nat_of_digits :: "string \<Rightarrow> nat" where
  "nat_of_digits ds = foldl (\<lambda>a c. 10 * a + digit_val c) 0 ds"

text \<open>A string in which every whitespace character is a space that stands alone.\<close>

fun collapsed :: "string \<Rightarrow> bool" where
  "collapsed [] = True"
| "collapsed [c] = (is_space c \<longrightarrow> c = CHR '' '')"
| "collapsed (c # d # cs) = ((is_space c \<longrightarrow> c = CHR '' '' \<and> \<not> is_space d) \<and> collapsed (d # cs))"

text \<open>A string that neither starts nor ends with whitespace.\<close>

definition trimmed :: "string \<Rightarrow> bool" where
  "trimmed s \<longleftrightarrow> s = [] \<or> (\<not> is_space (hd s) \<and> \<not> is_space (last s))"


text \<open>The identifier pattern of the two loaders, \<open>CUSA\d+\<close>, matched against a whole
  string.\<close>

definition is_cusa_identifier :: "string \<Rightarrow> bool" where
  "is_cusa_identifier s \<longleftrightarrow>
     prefix ''CUSA'' s \<and> 4 < length s \<and> list_all is_digit (drop 4 s)"

text \<open>The identifier under which a row of a CSV file is stored, and the record stored,
  when the loader accepts the row.\<close>

definition csv_key :: "csv_row \<Rightarrow> string option" where
  "csv_key row = search_cusa (strip (Title_ID row))"

definition csv_entry :: "string \<Rightarrow> csv_row \<Rightarrow> (string \<times> game_info) option" where
  "csv_entry csv_path row =
     (case csv_key row of
        None \<Rightarrow> None
      | Some m \<Rightarrow>
          Some (m, \<lparr>name = strip (Title_Name row),
                    version = strip (case Version row of None \<Rightarrow> ''1.00'' | Some v \<Rightarrow> v),
                    source = ''CSV:'' @ csv_path\<rparr>))"

text \<open>The same for an entry of a JSON document.\<close>

definition json_key :: "json_result \<Rightarrow> string option" where
  "json_key result =
     (if status result = Some ''found'' \<and> has_updates result
         \<and> get_or (title_name result) (get_or (sony_game_name result) []) \<noteq> []
      then search_cusa (get_or (title_id result) []) else None)"

definition json_entry :: "string \<Rightarrow> json_result \<Rightarrow> (string \<times> game_info) option" where
  "json_entry json_path result =
     (case json_key result of
        None \<Rightarrow> None
      | Some m \<Rightarrow>
          Some (m, \<lparr>name = get_or (title_name result) (get_or (sony_game_name result) []),
                    version = get_or (latest_version result) ''1.00'',
                    source = ''JSON:'' @ json_path\<rparr>))"

definition store :: "database \<Rightarrow> string \<times> game_info \<Rightarrow> database" where
  "store db e = AList.update (fst e) (snd e) db"

text \<open>The loading phase of \<open>main\<close>: the sources are loaded one after the other into the
  same store.\<close>

datatype data_source = CsvSource string csv_file | JsonSource string json_file

fun load_source :: "data_source \<Rightarrow> database \<Rightarrow> database" where
  "load_source (CsvSource csv_path df) db = fst (load_csv_data csv_path df db)"
| "load_source (JsonSource json_path data) db = fst (load_json_data json_path data db)"

definition load_sources :: "data_source list \<Rightarrow> database \<Rightarrow> database" where
  "load_sources sources db = foldl (\<lambda>d s. load_source s d) db sources"

text \<open>The records that the rows of a source hold, in the order of the rows: one for
  each row that the loader of its format accepts.\<close>

fun source_entries :: "data_source \<Rightarrow> (string \<times> game_info) list" where
  "source_entries (CsvSource csv_path (CsvRows rows)) = List.map_filter (csv_entry csv_path) rows"
| "source_entries (JsonSource json_path (JsonResults results))
     = List.map_filter (json_entry json_path) results"
| "source_entries s = []"

text \<open>The identifiers that the rows of a source hold.\<close>

definition source_identifiers :: "data_source \<Rightarrow> string set" where
  "source_identifiers s = fst ` set (source_entries s)"

text \<open>Two calls of \<open>process_directory\<close> on the same object, one after the other, with
  nothing done to the object in between.\<close>

definition consecutive_passes :: "bool \<Rightarrow> bool \<Rightarrow> renamer \<Rightarrow> filesystem \<Rightarrow> pass_state" where
  "consecutive_passes first_dry_run second_dry_run self fs =
     process_directory second_dry_run
       (pass_renamer (process_directory first_dry_run self fs))
       (pass_filesystem (process_directory first_dry_run self fs))"

text \<open>The entries that a pass itself adds to the two lists: those it leaves when it
  starts from empty lists.\<close>

definition added_renamed :: "bool \<Rightarrow> renamer \<Rightarrow> filesystem \<Rightarrow> renamed_entry list" where
  "added_renamed dry_run self fs =
     renamed_files (pass_renamer (process_directory dry_run (reset self) fs))"

definition added_errors :: "bool \<Rightarrow> renamer \<Rightarrow> filesystem \<Rightarrow> error_entry list" where
  "added_errors dry_run self fs =
     errors (pass_renamer (process_directory dry_run (reset self) fs))"





section \<open>Properties of \<open>sanitize_filename\<close>\<close>

lemma py_replace_char: "py_replace [c] [] s = filter (\<lambda>x. x \<noteq> c) s"
  by (induction s) auto

lemma foldl_filter:
  "foldl (\<lambda>name char. filter (\<lambda>x. x \<noteq> char) name) s cs = filter (\<lambda>x. x \<notin> set cs) s"
proof (induction cs arbitrary: s)
  case Nil
  then show ?case by simp
next
  case (Cons c cs)
  have "foldl (\<lambda>name char. filter (\<lambda>x. x \<noteq> char) name) s (c # cs)
      = filter (\<lambda>x. x \<notin> set cs) (filter (\<lambda>x. x \<noteq> c) s)"
    by (simp only: foldl.simps Cons.IH)
  also have "\<dots> = filter (\<lambda>x. x \<notin> set (c # cs)) s"
    by (induction s) auto
  finally show ?case .
qed

lemma foldl_replace_filter:
  "foldl (\<lambda>name char. py_replace [char] [] name) s cs = filter (\<lambda>x. x \<notin> set cs) s"
  by (simp only: py_replace_char foldl_filter)

lemma space_valid: "CHR '' '' \<notin> set invalid_chars"
  by (simp add: invalid_chars_def)

lemma sub_whitespace_hd:
  "s \<noteq> [] \<Longrightarrow> \<not> is_space (hd s) \<Longrightarrow> sub_whitespace s \<noteq> [] \<and> hd (sub_whitespace s) = hd s"
  by (cases s) auto

lemma dropWhile_hd_not: "dropWhile P s \<noteq> [] \<Longrightarrow> \<not> P (hd (dropWhile P s))"
  using hd_dropWhile by blast

lemma collapsed_Cons_space:
  "collapsed t \<Longrightarrow> (t \<noteq> [] \<Longrightarrow> \<not> is_space (hd t)) \<Longrightarrow> collapsed (CHR '' '' # t)"
  by (cases t) auto

lemma collapsed_Cons_nonspace:
  "collapsed t \<Longrightarrow> \<not> is_space c \<Longrightarrow> collapsed (c # t)"
  by (cases t) auto

lemma sub_whitespace_Nil_iff: "sub_whitespace s = [] \<longleftrightarrow> s = []"
  by (cases s) auto

lemma collapsed_sub_whitespace: "collapsed (sub_whitespace s)"
proof (induction s rule: sub_whitespace.induct)
  case 1
  then show ?case by simp
next
  case (2 c cs)
  show ?case
  proof (cases "is_space c")
    case True
    let ?r = "dropWhile is_space cs"
    have c: "collapsed (sub_whitespace ?r)" using 2 True by simp
    have h: "sub_whitespace ?r \<noteq> [] \<Longrightarrow> \<not> is_space (hd (sub_whitespace ?r))"
    proof -
      assume "sub_whitespace ?r \<noteq> []"
      then have ne: "?r \<noteq> []" by (simp add: sub_whitespace_Nil_iff)
      then have "\<not> is_space (hd ?r)" by (rule dropWhile_hd_not)
      with ne show ?thesis using sub_whitespace_hd by simp
    qed
    show ?thesis using True collapsed_Cons_space [OF c h] by simp
  next
    case False
    then show ?thesis using 2 collapsed_Cons_nonspace by simp
  qed
qed

lemma collapsed_append: "collapsed (a @ b) \<Longrightarrow> collapsed a \<and> collapsed b"
proof (induction a rule: collapsed.induct)
  case 1
  then show ?case by simp
next
  case (2 c)
  then show ?case by (cases b) auto
next
  case (3 c d cs)
  then show ?case by auto
qed

lemma collapsed_dropWhile: "collapsed s \<Longrightarrow> collapsed (dropWhile P s)"
  using collapsed_append [of "takeWhile P s" "dropWhile P s"] by simp

lemma rstrip_prefix: "\<exists>b. s = rstrip s @ b"
proof -
  have "rev s = takeWhile is_space (rev s) @ dropWhile is_space (rev s)" by simp
  then have "s = rev (dropWhile is_space (rev s)) @ rev (takeWhile is_space (rev s))"
    by (metis rev_append rev_rev_ident)
  then show ?thesis unfolding rstrip_def by blast
qed

lemma collapsed_strip: "collapsed s \<Longrightarrow> collapsed (strip s)"
proof -
  assume "collapsed s"
  then have "collapsed (lstrip s)" by (simp add: lstrip_def collapsed_dropWhile)
  moreover obtain b where "lstrip s = rstrip (lstrip s) @ b" using rstrip_prefix by blast
  ultimately show ?thesis unfolding strip_def using collapsed_append by metis
qed

lemma set_sub_whitespace: "set (sub_whitespace s) \<subseteq> insert CHR '' '' (set s)"
proof (induction s rule: sub_whitespace.induct)
  case 1
  then show ?case by simp
next
  case (2 c cs)
  then show ?case using set_dropWhileD by (auto split: if_splits) fastforce
qed

lemma set_strip: "set (strip s) \<subseteq> set s"
  unfolding strip_def rstrip_def lstrip_def by (auto dest!: set_dropWhileD)

lemma trimmed_strip: "trimmed (strip s)"
proof -
  let ?l = "lstrip s"
  show ?thesis
  proof (cases "strip s = []")
    case True
    then show ?thesis by (simp add: trimmed_def)
  next
    case False
    then have ne: "dropWhile is_space (rev ?l) \<noteq> []" by (simp add: strip_def rstrip_def)
    have last_ok: "\<not> is_space (last (strip s))"
      using dropWhile_hd_not [OF ne] ne by (simp add: strip_def rstrip_def last_rev)
    have lne: "?l \<noteq> []" using ne by auto
    have "\<not> is_space (hd ?l)" using lne unfolding lstrip_def by (rule dropWhile_hd_not)
    moreover obtain b where "?l = strip s @ b" using rstrip_prefix [of ?l] by (auto simp: strip_def)
    ultimately have "\<not> is_space (hd (strip s))" using False by (metis hd_append2)
    with last_ok show ?thesis by (simp add: trimmed_def)
  qed
qed

lemma strip_trimmed: "trimmed s \<Longrightarrow> strip s = s"
proof (cases "s = []")
  case True
  then show ?thesis by (simp add: strip_def rstrip_def lstrip_def)
next
  case False
  assume "trimmed s"
  with False have h: "\<not> is_space (hd s)" and l: "\<not> is_space (last s)" by (auto simp: trimmed_def)
  have 1: "lstrip s = s" using False h by (cases s) (auto simp: lstrip_def)
  obtain xs x where sx: "s = xs @ [x]" using False by (metis append_butlast_last_id)
  then have "dropWhile is_space (rev s) = rev s" using l by simp
  then show ?thesis by (simp add: strip_def rstrip_def 1)
qed

lemma sub_whitespace_collapsed: "collapsed s \<Longrightarrow> sub_whitespace s = s"
proof (induction s rule: collapsed.induct)
  case 1
  then show ?case by simp
next
  case (2 c)
  then show ?case by auto
next
  case (3 c d cs)
  then show ?case by auto
qed

lemma sub_whitespace_run:
  "ws \<noteq> [] \<Longrightarrow> list_all is_space ws \<Longrightarrow> (a \<noteq> [] \<Longrightarrow> \<not> is_space (last a)) \<Longrightarrow> (b \<noteq> [] \<Longrightarrow> \<not> is_space (hd b))
   \<Longrightarrow> sub_whitespace (a @ ws @ b) = sub_whitespace a @ CHR '' '' # sub_whitespace b"
proof (induction a rule: sub_whitespace.induct)
  case 1
  then obtain w ws' where ws: "ws = w # ws'" by (cases ws) auto
  with 1 have "is_space w" "list_all is_space ws'" by auto
  moreover have "dropWhile is_space (ws' @ b) = b"
    using \<open>list_all is_space ws'\<close> 1(4) by (cases b) (auto simp: list_all_iff dropWhile_append)
  ultimately show ?case using ws by simp
next
  case (2 c cs)
  have nl: "\<not> is_space (last (c # cs))" using 2(5) by simp
  show ?case
  proof (cases "is_space c")
    case True
    let ?d = "dropWhile is_space cs"
    have cs_ne: "cs \<noteq> []" using nl True by auto
    then have lcs: "\<not> is_space (last cs)" using nl by simp
    then have ex: "\<exists>x\<in>set cs. \<not> is_space x" using cs_ne last_in_set by blast
    then have d_ne: "?d \<noteq> []" by (simp add: dropWhile_eq_Nil_conv)
    have dl: "last ?d = last cs" using d_ne by (metis last_appendR takeWhile_dropWhile_id)
    obtain x where "x \<in> set cs" "\<not> is_space x" using ex by blast
    then have app: "dropWhile is_space (cs @ ws @ b) = ?d @ ws @ b"
      by (rule dropWhile_append1)
    have "sub_whitespace (?d @ ws @ b) = sub_whitespace ?d @ CHR '' '' # sub_whitespace b"
      using 2(1) [OF True 2(3) 2(4)] dl lcs 2(6) by simp
    then show ?thesis using True app by simp
  next
    case False
    have "sub_whitespace (cs @ ws @ b) = sub_whitespace cs @ CHR '' '' # sub_whitespace b"
      using 2(2) [OF False 2(3) 2(4)] nl 2(6) by (cases cs) auto
    then show ?thesis using False by simp
  qed
qed

lemma sanitize_as_filter:
  "sanitize_filename x = strip (sub_whitespace (filter (\<lambda>c. c \<notin> set invalid_chars) x))"
  by (simp add: sanitize_filename_def foldl_replace_filter)

lemma sanitize_valid: "set (sanitize_filename x) \<inter> set invalid_chars = {}"
proof -
  let ?f = "filter (\<lambda>c. c \<notin> set invalid_chars) x"
  have "set (sanitize_filename x) \<subseteq> insert CHR '' '' (set ?f)"
    unfolding sanitize_as_filter using set_strip set_sub_whitespace by blast
  then show ?thesis using space_valid by auto
qed

lemma sanitize_collapsed: "collapsed (sanitize_filename x)"
  unfolding sanitize_as_filter by (rule collapsed_strip) (rule collapsed_sub_whitespace)

lemma sanitize_trimmed: "trimmed (sanitize_filename x)"
  unfolding sanitize_as_filter by (rule trimmed_strip)

lemma sanitize_fixed:
  "set y \<inter> set invalid_chars = {} \<Longrightarrow> collapsed y \<Longrightarrow> trimmed y \<Longrightarrow> sanitize_filename y = y"
proof -
  assume a: "set y \<inter> set invalid_chars = {}" and c: "collapsed y" and t: "trimmed y"
  have "filter (\<lambda>c. c \<notin> set invalid_chars) y = y" using a by (auto simp: filter_id_conv)
  then show ?thesis by (simp add: sanitize_as_filter sub_whitespace_collapsed [OF c] strip_trimmed [OF t])
qed

lemma sub_whitespace_runs:
  "ws \<noteq> [] \<and> list_all is_space ws \<and> (a = [] \<or> \<not> is_space (last a))
     \<and> (b = [] \<or> \<not> is_space (hd b))
   \<longrightarrow> sub_whitespace (a @ ws @ b) = sub_whitespace a @ CHR '' '' # sub_whitespace b"
  using sub_whitespace_run [of ws a b] by blast

lemma sanitize_idem: "sanitize_filename (sanitize_filename x) = sanitize_filename x"
  by (rule sanitize_fixed [OF sanitize_valid sanitize_collapsed sanitize_trimmed])

text \<open>
  Claim C9. For every input string, \<open>sanitize_filename\<close> removes every character of
  \<open><>:"/\|?*\<close> (it is the filter that drops them, followed by the two whitespace steps,
  and its result has none of them); the substitution turns every maximal run of
  whitespace into one space, so that in the result every whitespace character is a single
  space standing alone; the result has no whitespace at either end; and sanitising a
  sanitised name changes nothing.
\<close>

theorem sanitize_filename_idempotent:
  "sanitize_filename x = strip (sub_whitespace (filter (\<lambda>c. c \<notin> set invalid_chars) x))
   \<and> set (sanitize_filename x) \<inter> set invalid_chars = {}
   \<and> (\<forall>a ws b. ws \<noteq> [] \<and> list_all is_space ws \<and> (a = [] \<or> \<not> is_space (last a))
         \<and> (b = [] \<or> \<not> is_space (hd b))
       \<longrightarrow> sub_whitespace (a @ ws @ b) = sub_whitespace a @ CHR '' '' # sub_whitespace b)
   \<and> collapsed (sanitize_filename x)
   \<and> trimmed (sanitize_filename x)
   \<and> sanitize_filename (sanitize_filename x) = sanitize_filename x"
proof (intro conjI allI)
  show "sanitize_filename x = strip (sub_whitespace (filter (\<lambda>c. c \<notin> set invalid_chars) x))"
    by (rule sanitize_as_filter)
  show "set (sanitize_filename x) \<inter> set invalid_chars = {}" by (rule sanitize_valid)
  show "collapsed (sanitize_filename x)" by (rule sanitize_collapsed)
  show "trimmed (sanitize_filename x)" by (rule sanitize_trimmed)
  show "sanitize_filename (sanitize_filename x) = sanitize_filename x" by (rule sanitize_idem)
  show "ws \<noteq> [] \<and> list_all is_space ws \<and> (a = [] \<or> \<not> is_space (last a))
         \<and> (b = [] \<or> \<not> is_space (hd b))
       \<longrightarrow> sub_whitespace (a @ ws @ b) = sub_whitespace a @ CHR '' '' # sub_whitespace b"
    for a ws b by (rule sub_whitespace_runs)
qed

theorem sanitize_filename_idempotent_witness:
  "sanitize_filename ''  Game: <One>   Two? '' = ''Game One Two''
   \<and> sanitize_filename (sanitize_filename ''  Game: <One>   Two? '') = ''Game One Two''
   \<and> sub_whitespace (''a'' @ [CHR 0x09, CHR '' ''] @ ''b'') = ''a b''"
proof -
  let ?x = "''  Game: <One>   Two? ''"
  have v: "sanitize_filename ?x = ''Game One Two''"
    by (simp add: sanitize_as_filter invalid_chars_def strip_def lstrip_def rstrip_def
        is_space_def whitespace_chars_def)
  have r: "sub_whitespace ''a'' @ CHR '' '' # sub_whitespace ''b'' = ''a b''"
    by (simp add: is_space_def whitespace_chars_def)
  have p: "[CHR 0x09, CHR '' ''] \<noteq> [] \<and> list_all is_space [CHR 0x09, CHR '' '']
     \<and> (''a'' = [] \<or> \<not> is_space (last ''a'')) \<and> (''b'' = [] \<or> \<not> is_space (hd ''b''))"
    by (simp add: is_space_def whitespace_chars_def)
  have t: "sanitize_filename (sanitize_filename ?x) = sanitize_filename ?x
    \<and> (\<forall>a ws b. ws \<noteq> [] \<and> list_all is_space ws \<and> (a = [] \<or> \<not> is_space (last a))
         \<and> (b = [] \<or> \<not> is_space (hd b))
       \<longrightarrow> sub_whitespace (a @ ws @ b) = sub_whitespace a @ CHR '' '' # sub_whitespace b)"
    using sanitize_filename_idempotent [of ?x] by blast
  from t have "sanitize_filename (sanitize_filename ?x) = ''Game One Two''"
    unfolding v by (rule conjunct1)
  moreover from t p have "sub_whitespace (''a'' @ [CHR 0x09, CHR '' ''] @ ''b'')
      = sub_whitespace ''a'' @ CHR '' '' # sub_whitespace ''b''"
    by blast
  ultimately show ?thesis using v r by simp
qed

section \<open>Properties of \<open>format_version\<close>\<close>

lemma digit_not_sign: "is_digit c \<Longrightarrow> c \<noteq> CHR ''-'' \<and> c \<noteq> CHR ''+'' \<and> c \<noteq> CHR ''_'' \<and> c \<noteq> CHR ''.''"
  by (auto simp: is_digit_def)

lemma digit_not_int_space: "is_digit c \<Longrightarrow> \<not> is_int_space c"
  by (auto simp: is_digit_def is_int_space_def int_whitespace_chars_def)

lemma dropWhile_hd_keeps: "s \<noteq> [] \<Longrightarrow> \<not> P (hd s) \<Longrightarrow> dropWhile P s = s"
  by (cases s) auto

lemma int_strip_digits: "list_all is_digit ds \<Longrightarrow> int_strip ds = ds"
proof (cases "ds = []")
  case True
  then show ?thesis by (simp add: int_strip_def)
next
  case False
  assume a: "list_all is_digit ds"
  have "hd ds \<in> set ds" "last ds \<in> set ds" using False by simp_all
  then have "is_digit (hd ds)" "is_digit (last ds)" using a by (simp_all add: list_all_iff)
  then have h: "\<not> is_int_space (hd ds)" and l: "\<not> is_int_space (hd (rev ds))"
    using False by (simp_all add: digit_not_int_space hd_rev)
  have "dropWhile is_int_space ds = ds" using False h by (rule dropWhile_hd_keeps)
  moreover have "dropWhile is_int_space (rev ds) = rev ds"
    using False l by (intro dropWhile_hd_keeps) simp_all
  ultimately show ?thesis by (simp add: int_strip_def)
qed

lemma int_body_digits: "list_all is_digit ds \<Longrightarrow> ds \<noteq> [] \<Longrightarrow> int_body ds"
  by (induction ds rule: int_body.induct) (auto simp: digit_not_sign)

lemma body_value_digits: "list_all is_digit ds \<Longrightarrow> body_value ds = nat_of_digits ds"
proof -
  assume "list_all is_digit ds"
  then have "filter (\<lambda>c. c \<noteq> CHR ''_'') ds = ds"
    by (auto simp: filter_id_conv list_all_iff digit_not_sign)
  then show ?thesis by (simp add: body_value_def nat_of_digits_def)
qed

lemma py_int_digits:
  "list_all is_digit ds \<Longrightarrow> ds \<noteq> [] \<Longrightarrow> py_int ds = Some (int (nat_of_digits ds))"
proof -
  assume a: "list_all is_digit ds" and ne: "ds \<noteq> []"
  obtain c cs where ds: "ds = c # cs" using ne by (cases ds) auto
  with a have "is_digit c" by simp
  then have "c \<noteq> CHR ''-''" "c \<noteq> CHR ''+''" by (simp_all add: digit_not_sign)
  then show ?thesis
    using int_body_digits [OF a ne] body_value_digits [OF a] int_strip_digits [OF a] ds
    by (simp add: py_int_def)
qed

lemma digits_not_dotted: "list_all is_digit v \<Longrightarrow> \<not> match_dotted v"
proof
  assume a: "list_all is_digit v" and m: "match_dotted v"
  have nd: "\<not> is_digit CHR ''.''" "\<not> is_digit CHR 0x0A" by (simp_all add: is_digit_def)
  have core: "dotted_core s \<Longrightarrow> CHR ''.'' \<in> set s" for s
    by (auto simp: dotted_core_def split: list.splits)
  from m consider "dotted_core v" | "v \<noteq> []" "last v = CHR 0x0A" unfolding match_dotted_def by blast
  then show False
  proof cases
    case 1
    then have "CHR ''.'' \<in> set v" by (rule core)
    with a nd show False by (auto simp: list_all_iff)
  next
    case 2
    then have "CHR 0x0A \<in> set v" using last_in_set by metis
    with a nd show False by (auto simp: list_all_iff)
  qed
qed

lemma format_version_empty: "format_version [] = ''1.00''"
  by (simp add: format_version_def)

lemma format_version_dotted: "dotted_core v \<Longrightarrow> format_version v = v"
  by (auto simp: format_version_def match_dotted_def dotted_core_def)

lemma format_version_run:
  assumes "list_all is_digit v" "3 \<le> length v"
  shows "format_version v
     = str_nat (nat_of_digits (take (length v - 2) v)) @ ''.'' @ drop (length v - 2) v"
proof -
  let ?h = "take (length v - 2) v"
  have h: "list_all is_digit ?h" using assms(1) by (auto simp: list_all_iff dest: in_set_takeD)
  have hne: "?h \<noteq> []" using assms(2) by auto
  have vne: "v \<noteq> []" using assms(2) by auto
  show ?thesis
    using py_int_digits [OF h hne] digits_not_dotted [OF assms(1)] hne vne assms(2)
    by (simp add: format_version_def Let_def str_int_def)
qed

lemma format_version_short:
  assumes "list_all is_digit v" "v \<noteq> []" "length v < 3"
  shows "format_version v = ''1.'' @ replicate (2 - length v) CHR ''0'' @ v"
proof -
  obtain c cs where v: "v = c # cs" using assms(2) by (cases v) auto
  with assms(1) have "c \<noteq> CHR ''-''" "c \<noteq> CHR ''+''" using digit_not_sign by auto
  then have "zfill 2 v = replicate (2 - length v) CHR ''0'' @ v"
    using v by (auto simp: zfill_def)
  then show ?thesis
    using digits_not_dotted [OF assms(1)] assms(2,3) by (simp add: format_version_def)
qed

lemma format_version_except:
  assumes "3 \<le> length v" "py_int (take (length v - 2) v) = None"
  shows "format_version v = v"
  using assms by (auto simp: format_version_def Let_def)

text \<open>
  Claim C6. \<open>format_version\<close> returns a string on every input and nothing it does
  raises: the empty input gives \<open>1.00\<close>; an input in the dotted form (one or two
  digits, a dot, two digits) is returned as it is; a run of three or more digits gives the
  number read from all but its last two digits, a dot, and the last two digits; a run of
  one or two digits gives \<open>1.\<close> followed by the run padded with zeros to two digits;
  and when the conversion of the leading part to an integer fails, the input is returned
  unchanged.
\<close>

theorem format_version_total:
  "format_version [] = ''1.00''
   \<and> (dotted_core dotted \<longrightarrow> format_version dotted = dotted)
   \<and> (list_all is_digit run \<and> 3 \<le> length run \<longrightarrow>
        format_version run
          = str_nat (nat_of_digits (take (length run - 2) run)) @ ''.''
              @ drop (length run - 2) run)
   \<and> (list_all is_digit short \<and> short \<noteq> [] \<and> length short < 3 \<longrightarrow>
        format_version short = ''1.'' @ replicate (2 - length short) CHR ''0'' @ short)
   \<and> (3 \<le> length raw \<and> py_int (take (length raw - 2) raw) = None \<longrightarrow>
        format_version raw = raw)"
  using format_version_empty format_version_dotted format_version_run format_version_short
    format_version_except by blast

lemma str_nat_2: "str_nat 2 = ''2''"
  by (simp add: str_nat.simps digit_char_def)

lemma nat_of_digits_02: "nat_of_digits ''02'' = 2"
  by (simp add: nat_of_digits_def digit_val_def)

theorem format_version_total_witness:
  "format_version ''01.10'' = ''01.10''
   \<and> format_version ''0283'' = ''2.83''
   \<and> format_version ''5'' = ''1.05''
   \<and> format_version ''1x00'' = ''1x00''"
proof -
  have d: "dotted_core ''01.10''" by (simp add: dotted_core_def is_digit_def)
  have r: "list_all is_digit ''0283'' \<and> 3 \<le> length ''0283''" by (simp add: is_digit_def)
  have rv: "str_nat (nat_of_digits (take (length ''0283'' - 2) ''0283'')) @ ''.''
      @ drop (length ''0283'' - 2) ''0283'' = ''2.83''"
    by (simp add: nat_of_digits_02 str_nat_2)
  have s: "list_all is_digit ''5'' \<and> ''5'' \<noteq> [] \<and> length ''5'' < 3" by (simp add: is_digit_def)
  have sv: "''1.'' @ replicate (2 - length ''5'') CHR ''0'' @ ''5'' = ''1.05''"
    by (simp add: numeral_2_eq_2)
  have x: "3 \<le> length ''1x00'' \<and> py_int (take (length ''1x00'' - 2) ''1x00'') = None"
    by (simp add: py_int_def int_strip_def is_int_space_def int_whitespace_chars_def
        is_digit_def)
  from format_version_total [of "''01.10''" "''0283''" "''5''" "''1x00''"] d r s x
  have "format_version ''01.10'' = ''01.10''
    \<and> format_version ''0283'' = str_nat (nat_of_digits (take (length ''0283'' - 2) ''0283''))
          @ ''.'' @ drop (length ''0283'' - 2) ''0283''
    \<and> format_version ''5'' = ''1.'' @ replicate (2 - length ''5'') CHR ''0'' @ ''5''
    \<and> format_version ''1x00'' = ''1x00''"
    by blast
  then show ?thesis unfolding rv sv .
qed

section \<open>Properties of \<open>generate_new_filename\<close>\<close>

lemmas eval_sanitize = sanitize_as_filter invalid_chars_def strip_def lstrip_def rstrip_def
  is_space_def whitespace_chars_def

lemma format_version_0283: "format_version ''0283'' = ''2.83''"
  using format_version_run [of "''0283''"]
  by (simp add: is_digit_def nat_of_digits_02 str_nat_2)

lemmas eval_parse = parse_filename_def patterns_def pattern_standard_def pattern_alternative_def
  pattern_simple_def full_form_def optional_part_def lit_def many1_def exactly_def
  is_digit_def is_upper_def is_upper_or_digit_def

lemma parse_standard_example:
  "parse_filename ''UP0017-CUSA00012_00-DCUOLPS4LIVE0001-A0283-V0100.pkg''
     = Some \<lparr>publisher = Some ''UP0017'', cusa = Some ''CUSA00012'',
             title_code = Some ''DCUOLPS4LIVE0001'', app_version = Some ''0283'',
             file_version = Some ''0100'', part = None\<rparr>"
  by (simp add: eval_parse)

lemma generate_present:
  assumes "cusa parsed = Some c" "c \<noteq> []" "map_of db c = Some info"
  shows "generate_new_filename db parsed original_filename
     = Some (sanitize_filename
         (name info @ '' [UPDATE '' @ format_version (version info) @ ''][''
            @ c @ '']''
            @ (case part parsed of None \<Rightarrow> [] | Some p \<Rightarrow> if p = [] then [] else ''_Part'' @ p)
            @ ''.pkg''))"
  using assms by (simp add: generate_new_filename_def Let_def)

lemma generate_ignores_file_version:
  "generate_new_filename db (parsed\<lparr>file_version := fv, app_version := av\<rparr>) original_filename
     = generate_new_filename db parsed original_filename"
  by (simp add: generate_new_filename_def Let_def split: option.splits)

lemma generate_absent:
  assumes "cusa parsed = Some c" "map_of db c = None"
  shows "generate_new_filename db parsed original_filename = None"
  using assms by (simp add: generate_new_filename_def)

lemma generate_example:
  "generate_new_filename
     [(''CUSA00012'', \<lparr>name = ''Example Game'', version = ''0283'', source = src\<rparr>)]
     \<lparr>publisher = pub, cusa = Some ''CUSA00012'', title_code = tc, app_version = av,
      file_version = fv, part = None\<rparr> original_filename
   = Some ''Example Game [UPDATE 2.83][CUSA00012].pkg''"
  by (simp add: generate_new_filename_def format_version_0283 eval_sanitize)

text \<open>
  Claim C5. For a parsed file name whose identifier has a record in the store, the
  generated name is the sanitised composition of the record's name, the record's version
  passed through \<open>format_version\<close>, the identifier and the part suffix; the version and
  the application version read from the file name play no role. For the store that maps
  \<open>CUSA00012\<close> to the name \<open>Example Game\<close> and the version \<open>0283\<close>, and a parsed name
  with that identifier and no part, the result is
  \<open>Example Game [UPDATE 2.83][CUSA00012].pkg\<close>. When the store has no record for the
  identifier the result is \<open>None\<close>, also for a name that was parsed.
\<close>

theorem generate_new_filename_store_version:
  "(cusa parsed = Some c \<and> c \<noteq> [] \<and> map_of db c = Some info \<longrightarrow>
      generate_new_filename db parsed original_filename
        = Some (sanitize_filename
            (name info @ '' [UPDATE '' @ format_version (version info) @ ''][''
               @ c @ '']''
               @ (case part parsed of None \<Rightarrow> [] | Some p \<Rightarrow> if p = [] then [] else ''_Part'' @ p)
               @ ''.pkg'')))
   \<and> generate_new_filename db (parsed\<lparr>file_version := fv, app_version := av\<rparr>) original_filename
        = generate_new_filename db parsed original_filename
   \<and> generate_new_filename
        [(''CUSA00012'', \<lparr>name = ''Example Game'', version = ''0283'', source = src\<rparr>)]
        \<lparr>publisher = pub, cusa = Some ''CUSA00012'', title_code = tc, app_version = av',
         file_version = fv', part = None\<rparr> original_filename'
        = Some ''Example Game [UPDATE 2.83][CUSA00012].pkg''
   \<and> (parse_filename filename = Some parsed' \<and> cusa parsed' = Some c' \<and> map_of db' c' = None \<longrightarrow>
        generate_new_filename db' parsed' filename = None)"
  using generate_present generate_ignores_file_version generate_example generate_absent
  by (intro conjI impI) auto


theorem generate_new_filename_store_version_witness:
  "parse_filename ''UP0017-CUSA00012_00-DCUOLPS4LIVE0001-A0283-V0100.pkg''
     = Some \<lparr>publisher = Some ''UP0017'', cusa = Some ''CUSA00012'',
             title_code = Some ''DCUOLPS4LIVE0001'', app_version = Some ''0283'',
             file_version = Some ''0100'', part = None\<rparr>
   \<and> generate_new_filename
        [(''CUSA00012'', \<lparr>name = ''Example Game'', version = ''0283'', source = ''CSV:a.csv''\<rparr>)]
        \<lparr>publisher = Some ''UP0017'', cusa = Some ''CUSA00012'',
         title_code = Some ''DCUOLPS4LIVE0001'', app_version = Some ''0283'',
         file_version = Some ''0100'', part = None\<rparr>
        ''UP0017-CUSA00012_00-DCUOLPS4LIVE0001-A0283-V0100.pkg''
     = Some ''Example Game [UPDATE 2.83][CUSA00012].pkg''
   \<and> generate_new_filename
        [(''CUSA00012'', \<lparr>name = ''Example Game'', version = ''0283'', source = ''CSV:a.csv''\<rparr>)]
        \<lparr>publisher = Some ''UP0017'', cusa = Some ''CUSA00012'',
         title_code = Some ''DCUOLPS4LIVE0001'', app_version = None,
         file_version = Some ''9999'', part = None\<rparr>
        ''UP0017-CUSA00012_00-DCUOLPS4LIVE0001-A0283-V0100.pkg''
     = Some ''Example Game [UPDATE 2.83][CUSA00012].pkg''
   \<and> generate_new_filename []
        \<lparr>publisher = Some ''UP0017'', cusa = Some ''CUSA00012'',
         title_code = Some ''DCUOLPS4LIVE0001'', app_version = Some ''0283'',
         file_version = Some ''0100'', part = None\<rparr>
        ''UP0017-CUSA00012_00-DCUOLPS4LIVE0001-A0283-V0100.pkg'' = None"
proof -
  let ?f = "''UP0017-CUSA00012_00-DCUOLPS4LIVE0001-A0283-V0100.pkg''"
  let ?p = "\<lparr>publisher = Some ''UP0017'', cusa = Some ''CUSA00012'',
             title_code = Some ''DCUOLPS4LIVE0001'', app_version = Some ''0283'',
             file_version = Some ''0100'', part = None\<rparr>"
  let ?i = "\<lparr>name = ''Example Game'', version = ''0283'', source = ''CSV:a.csv''\<rparr>"
  let ?db = "[(''CUSA00012'', ?i)]"
  note t = generate_new_filename_store_version [where parsed = ?p and c = "''CUSA00012''"
      and db = ?db and info = ?i and original_filename = ?f and fv = "Some ''9999''"
      and av = None and src = "''CSV:a.csv''" and pub = "Some ''UP0017''"
      and tc = "Some ''DCUOLPS4LIVE0001''" and av' = "Some ''0283''" and fv' = "Some ''0100''"
      and original_filename' = ?f and filename = ?f and parsed' = ?p and c' = "''CUSA00012''"
      and db' = "[]"]
  have h1: "cusa ?p = Some ''CUSA00012'' \<and> ''CUSA00012'' \<noteq> [] \<and> map_of ?db ''CUSA00012'' = Some ?i"
    by simp
  have h2: "parse_filename ?f = Some ?p \<and> cusa ?p = Some ''CUSA00012'' \<and> map_of [] ''CUSA00012'' = None"
    using parse_standard_example by simp
  have v: "sanitize_filename
            (name ?i @ '' [UPDATE '' @ format_version (version ?i) @ ''][''
               @ ''CUSA00012'' @ '']''
               @ (case part ?p of None \<Rightarrow> [] | Some p \<Rightarrow> if p = [] then [] else ''_Part'' @ p)
               @ ''.pkg'') = ''Example Game [UPDATE 2.83][CUSA00012].pkg''"
    by (simp add: format_version_0283 eval_sanitize)
  have u: "?p\<lparr>file_version := Some ''9999'', app_version := None\<rparr>
      = \<lparr>publisher = Some ''UP0017'', cusa = Some ''CUSA00012'',
         title_code = Some ''DCUOLPS4LIVE0001'', app_version = None,
         file_version = Some ''9999'', part = None\<rparr>"
    by simp
  note t1 = t [THEN conjunct1, THEN mp, OF h1]
  note t2 = t [THEN conjunct2, THEN conjunct1]
  note t4 = t [THEN conjunct2, THEN conjunct2, THEN conjunct2, THEN mp, OF h2]
  have a: "generate_new_filename ?db ?p ?f = Some ''Example Game [UPDATE 2.83][CUSA00012].pkg''"
    using t1 unfolding v .
  have b: "generate_new_filename ?db
        \<lparr>publisher = Some ''UP0017'', cusa = Some ''CUSA00012'',
         title_code = Some ''DCUOLPS4LIVE0001'', app_version = None,
         file_version = Some ''9999'', part = None\<rparr> ?f = Some ''Example Game [UPDATE 2.83][CUSA00012].pkg''"
    using t2 unfolding u a .
  show ?thesis using parse_standard_example a b t4 by simp
qed

section \<open>Properties of \<open>parse_filename\<close>\<close>

lemma exactly_SomeD:
  "exactly n P s = Some (a, r) \<Longrightarrow> length a = n \<and> list_all P a \<and> s = a @ r"
  by (auto simp: exactly_def split: if_splits)

lemma many1_SomeD:
  "many1 P s = Some (a, r) \<Longrightarrow> a \<noteq> [] \<and> list_all P a \<and> s = a @ r"
  by (auto simp: many1_def list_all_iff split: if_splits dest: set_takeWhileD)

lemma identifier_parts:
  "length c1 = 4 \<Longrightarrow> list_all is_upper c1 \<Longrightarrow> c2 \<noteq> [] \<Longrightarrow> list_all is_digit c2
   \<Longrightarrow> is_identifier (c1 @ c2)"
  by (simp add: is_identifier_def)


lemma full_form_identifier:
  assumes "full_form s = Some (gs, r)"
  shows "length gs = 5 \<and> (\<exists>c. gs ! 1 = Some c \<and> is_identifier c)"
  using assms unfolding full_form_def
  by (clarsimp simp: Option.bind_eq_Some_conv dest!: exactly_SomeD many1_SomeD)
     (simp add: is_identifier_def)

lemma pattern_simple_identifier:
  assumes "pattern_simple s = Some gs"
  shows "length gs = 3 \<and> (\<exists>c. gs ! 0 = Some c \<and> is_identifier c)"
  using assms unfolding pattern_simple_def
  by (clarsimp simp: Option.bind_eq_Some_conv dest!: exactly_SomeD many1_SomeD)
     (simp add: is_identifier_def)

lemma match_patterns_full:
  "full_form base_name = Some (gs, r) \<Longrightarrow>
   match_patterns patterns base_name
     = Some \<lparr>publisher = gs ! 0, cusa = gs ! 1, title_code = gs ! 2, app_version = gs ! 3,
             file_version = gs ! 4, part = optional_part r\<rparr>"
proof -
  assume f: "full_form base_name = Some (gs, r)"
  have l: "length gs = 5" using full_form_identifier [OF f] by simp
  have o: "optional_part r \<noteq> Some []"
    by (auto simp: optional_part_def many1_def split: option.splits if_splits)
  show ?thesis using f l o
    by (cases "optional_part r") (simp_all add: patterns_def pattern_standard_def nth_append)
qed

lemma match_patterns_simple:
  "full_form base_name = None \<Longrightarrow> pattern_simple base_name = Some gs \<Longrightarrow>
   match_patterns patterns base_name
     = Some \<lparr>publisher = None, cusa = gs ! 0, title_code = gs ! 1, app_version = None,
             file_version = gs ! 2, part = None\<rparr>"
proof -
  assume f: "full_form base_name = None" and p: "pattern_simple base_name = Some gs"
  have l: "length gs = 3" using pattern_simple_identifier [OF p] by simp
  show ?thesis using f p l
    by (simp add: patterns_def pattern_standard_def pattern_alternative_def)
qed

lemma match_patterns_none:
  "full_form base_name = None \<Longrightarrow> pattern_simple base_name = None \<Longrightarrow>
   match_patterns patterns base_name = None"
  by (simp add: patterns_def pattern_standard_def pattern_alternative_def)

lemma match_patterns_identifier:
  assumes "match_patterns patterns base_name = Some parsed"
  shows "\<exists>c. cusa parsed = Some c \<and> is_identifier c"
proof (cases "full_form base_name")
  case None
  show ?thesis
  proof (cases "pattern_simple base_name")
    case n: None
    then show ?thesis using assms match_patterns_none [OF None n] by simp
  next
    case (Some gs)
    then show ?thesis
      using assms match_patterns_simple [OF None Some] pattern_simple_identifier [OF Some]
      by auto
  qed
next
  case (Some a)
  then obtain gs r where f: "full_form base_name = Some (gs, r)" by (cases a) auto
  show ?thesis using assms match_patterns_full [OF f] full_form_identifier [OF f] by auto
qed

lemma parse_filename_identifier:
  "parse_filename filename = Some parsed \<Longrightarrow> \<exists>c. cusa parsed = Some c \<and> is_identifier c"
  unfolding parse_filename_def by (rule match_patterns_identifier)


text \<open>
  Claim C8. \<open>parse_filename\<close> does not strip the package extension: it removes every
  occurrence of \<open>.pkg\<close> in the name, as \<open>str.replace\<close> does, where its comment says
  "Remove .pkg extension". For the name below, the parser that strips the extension reads
  no part (what follows \<open>V0100\<close> is \<open>.pkg_5\<close>), and \<open>parse_filename\<close> reads the
  part \<open>5\<close>. The rest of the claim holds: the patterns are tried in order, no match
  gives \<open>None\<close>, and a parsed name has an identifier of four capitals and digits
  (\<open>parse_filename_identifier\<close>).
\<close>

theorem parse_filename_inner_extension:
  "parse_filename ''UP0017-CUSA00012_00-DCUOLPS4LIVE0001-A0283-V0100.pkg_5.pkg''
     = Some \<lparr>publisher = Some ''UP0017'', cusa = Some ''CUSA00012'',
             title_code = Some ''DCUOLPS4LIVE0001'', app_version = Some ''0283'',
             file_version = Some ''0100'', part = Some ''5''\<rparr>
   \<and> strip_extension_spec ''UP0017-CUSA00012_00-DCUOLPS4LIVE0001-A0283-V0100.pkg_5.pkg''
     = ''UP0017-CUSA00012_00-DCUOLPS4LIVE0001-A0283-V0100.pkg_5''
   \<and> parse_filename_spec ''UP0017-CUSA00012_00-DCUOLPS4LIVE0001-A0283-V0100.pkg_5.pkg''
     = Some \<lparr>publisher = Some ''UP0017'', cusa = Some ''CUSA00012'',
             title_code = Some ''DCUOLPS4LIVE0001'', app_version = Some ''0283'',
             file_version = Some ''0100'', part = None\<rparr>"
proof -
  have e: "strip_extension_spec ''UP0017-CUSA00012_00-DCUOLPS4LIVE0001-A0283-V0100.pkg_5.pkg''
     = ''UP0017-CUSA00012_00-DCUOLPS4LIVE0001-A0283-V0100.pkg_5''"
    by (simp add: strip_extension_spec_def suffix_to_prefix)
  have p: "parse_filename ''UP0017-CUSA00012_00-DCUOLPS4LIVE0001-A0283-V0100.pkg_5.pkg''
     = Some \<lparr>publisher = Some ''UP0017'', cusa = Some ''CUSA00012'',
             title_code = Some ''DCUOLPS4LIVE0001'', app_version = Some ''0283'',
             file_version = Some ''0100'', part = Some ''5''\<rparr>"
    by (simp add: eval_parse)
  have q: "match_patterns patterns ''UP0017-CUSA00012_00-DCUOLPS4LIVE0001-A0283-V0100.pkg_5''
     = Some \<lparr>publisher = Some ''UP0017'', cusa = Some ''CUSA00012'',
             title_code = Some ''DCUOLPS4LIVE0001'', app_version = Some ''0283'',
             file_version = Some ''0100'', part = None\<rparr>"
    by (simp add: eval_parse)
  show ?thesis using e p q by (simp add: parse_filename_spec_def)
qed

section \<open>Properties of the store and the loaders\<close>

lemma match_cusa_SomeD:
  "match_cusa s = Some m \<Longrightarrow> is_cusa_identifier m \<and> (\<exists>post. s = m @ post)"
proof -
  assume a: "match_cusa s = Some m"
  then have p: "prefix ''CUSA'' s" and ne: "takeWhile is_digit (drop 4 s) \<noteq> []"
    and m: "m = ''CUSA'' @ takeWhile is_digit (drop 4 s)"
    by (auto simp: match_cusa_def split: if_splits)
  from p obtain rest where s: "s = ''CUSA'' @ rest" by (auto simp: prefix_def)
  then have d: "drop 4 s = rest" by simp
  have "list_all is_digit (takeWhile is_digit rest)"
    by (auto simp: list_all_iff dest: set_takeWhileD)
  then have "is_cusa_identifier m" using m ne d by (simp add: is_cusa_identifier_def)
  moreover have "s = m @ dropWhile is_digit rest" using s m d by simp
  ultimately show ?thesis by blast
qed

lemma search_cusa_SomeD:
  "search_cusa s = Some m \<Longrightarrow> is_cusa_identifier m \<and> (\<exists>pre post. s = pre @ m @ post)"
proof (induction s)
  case Nil
  then show ?case by simp
next
  case (Cons c cs)
  show ?case
  proof (cases "match_cusa (c # cs)")
    case None
    with Cons.prems have "search_cusa cs = Some m" by simp
    from Cons.IH [OF this] obtain pre post where "is_cusa_identifier m" "cs = pre @ m @ post"
      by blast
    then have "is_cusa_identifier m \<and> c # cs = (c # pre) @ m @ post" by simp
    then show ?thesis by blast
  next
    case (Some a)
    with Cons.prems have "match_cusa (c # cs) = Some m" by simp
    from match_cusa_SomeD [OF this] obtain post where "is_cusa_identifier m" "c # cs = [] @ m @ post"
      by auto
    then show ?thesis by blast
  qed
qed

lemma match_cusa_here: "is_digit d \<Longrightarrow> match_cusa (''CUSA'' @ d # post) \<noteq> None"
  by (simp add: match_cusa_def)

lemma search_cusa_anywhere:
  "is_digit d \<Longrightarrow> search_cusa (pre @ ''CUSA'' @ d # post) \<noteq> None"
proof (induction pre)
  case Nil
  have "search_cusa (''CUSA'' @ d # post) \<noteq> None"
    using match_cusa_here [OF Nil, of post] by (auto split: option.splits)
  then show ?case by simp
next
  case (Cons c pre)
  then show ?case by (auto split: option.splits)
qed

lemma match_cusa_iff:
  "match_cusa s = Some m \<longleftrightarrow>
     (\<exists>ds post. s = ''CUSA'' @ ds @ post \<and> m = ''CUSA'' @ ds \<and> ds \<noteq> [] \<and> list_all is_digit ds
        \<and> (post = [] \<or> \<not> is_digit (hd post)))"
proof
  assume a: "match_cusa s = Some m"
  then have p: "prefix ''CUSA'' s" and ne: "takeWhile is_digit (drop 4 s) \<noteq> []"
    and m: "m = ''CUSA'' @ takeWhile is_digit (drop 4 s)"
    by (auto simp: match_cusa_def split: if_splits)
  from p obtain rest where s: "s = ''CUSA'' @ rest" by (auto simp: prefix_def)
  let ?ds = "takeWhile is_digit rest" and ?post = "dropWhile is_digit rest"
  have "s = ''CUSA'' @ ?ds @ ?post" using s by simp
  moreover have "m = ''CUSA'' @ ?ds" using m s by simp
  moreover have "?ds \<noteq> []" using ne s by simp
  moreover have "list_all is_digit ?ds" by (auto simp: list_all_iff dest: set_takeWhileD)
  moreover have "?post = [] \<or> \<not> is_digit (hd ?post)" using hd_dropWhile by blast
  ultimately show "\<exists>ds post. s = ''CUSA'' @ ds @ post \<and> m = ''CUSA'' @ ds \<and> ds \<noteq> []
      \<and> list_all is_digit ds \<and> (post = [] \<or> \<not> is_digit (hd post))"
    by blast
next
  assume "\<exists>ds post. s = ''CUSA'' @ ds @ post \<and> m = ''CUSA'' @ ds \<and> ds \<noteq> [] \<and> list_all is_digit ds
      \<and> (post = [] \<or> \<not> is_digit (hd post))"
  then obtain ds post where s: "s = ''CUSA'' @ ds @ post" and m: "m = ''CUSA'' @ ds"
    and ne: "ds \<noteq> []" and dg: "list_all is_digit ds"
    and stop: "post = [] \<or> \<not> is_digit (hd post)"
    by blast
  have "takeWhile is_digit (ds @ post) = ds"
  proof (cases post)
    case Nil
    then show ?thesis using dg by (simp add: list_all_iff)
  next
    case (Cons x xs)
    then have "\<not> is_digit x" using stop by simp
    then show ?thesis using dg Cons by (simp add: list_all_iff takeWhile_append2 takeWhile_tail)
  qed
  then show "match_cusa s = Some m" using s m ne by (simp add: match_cusa_def)
qed

lemma match_cusa_None_iff:
  "match_cusa s = None \<longleftrightarrow> (\<forall>d q. is_digit d \<longrightarrow> s \<noteq> ''CUSA'' @ d # q)"
proof
  assume n: "match_cusa s = None"
  show "\<forall>d q. is_digit d \<longrightarrow> s \<noteq> ''CUSA'' @ d # q"
  proof (intro allI impI notI)
    fix d q assume "is_digit d" "s = ''CUSA'' @ d # q"
    then have "match_cusa s \<noteq> None" using match_cusa_here by simp
    with n show False by simp
  qed
next
  assume a: "\<forall>d q. is_digit d \<longrightarrow> s \<noteq> ''CUSA'' @ d # q"
  show "match_cusa s = None"
  proof (rule ccontr)
    assume "match_cusa s \<noteq> None"
    then obtain m where "match_cusa s = Some m" by auto
    then obtain ds post where s: "s = ''CUSA'' @ ds @ post" and ne: "ds \<noteq> []"
      and dg: "list_all is_digit ds"
      unfolding match_cusa_iff by blast
    obtain d ds' where "ds = d # ds'" using ne by (cases ds) auto
    then have "is_digit d" "s = ''CUSA'' @ d # (ds' @ post)" using dg s by simp_all
    with a show False by blast
  qed
qed

lemma search_cusa_Some_iff:
  "search_cusa s = Some m \<longleftrightarrow>
     (\<exists>pre ds post. s = pre @ ''CUSA'' @ ds @ post \<and> m = ''CUSA'' @ ds \<and> ds \<noteq> []
        \<and> list_all is_digit ds \<and> (post = [] \<or> \<not> is_digit (hd post))
        \<and> (\<forall>p d q. s = p @ ''CUSA'' @ d # q \<and> is_digit d \<longrightarrow> length pre \<le> length p))"
proof (induction s)
  case Nil
  then show ?case by simp
next
  case (Cons c cs)
  show ?case
  proof (cases "match_cusa (c # cs)")
    case (Some m')
    have l: "search_cusa (c # cs) = Some m'" using Some by simp
    show ?thesis
    proof
      assume "search_cusa (c # cs) = Some m"
      then have "match_cusa (c # cs) = Some m" using l Some by simp
      then obtain ds post where "c # cs = [] @ ''CUSA'' @ ds @ post" "m = ''CUSA'' @ ds" "ds \<noteq> []"
        "list_all is_digit ds" "post = [] \<or> \<not> is_digit (hd post)"
        unfolding match_cusa_iff by auto
      moreover have "\<forall>p d q. c # cs = p @ ''CUSA'' @ d # q \<and> is_digit d
          \<longrightarrow> length ([]::string) \<le> length p"
        by simp
      ultimately show "\<exists>pre ds post. c # cs = pre @ ''CUSA'' @ ds @ post \<and> m = ''CUSA'' @ ds
          \<and> ds \<noteq> [] \<and> list_all is_digit ds \<and> (post = [] \<or> \<not> is_digit (hd post))
          \<and> (\<forall>p d q. c # cs = p @ ''CUSA'' @ d # q \<and> is_digit d \<longrightarrow> length pre \<le> length p)"
        by blast
    next
      assume "\<exists>pre ds post. c # cs = pre @ ''CUSA'' @ ds @ post \<and> m = ''CUSA'' @ ds
          \<and> ds \<noteq> [] \<and> list_all is_digit ds \<and> (post = [] \<or> \<not> is_digit (hd post))
          \<and> (\<forall>p d q. c # cs = p @ ''CUSA'' @ d # q \<and> is_digit d \<longrightarrow> length pre \<le> length p)"
      then obtain pre ds post where s: "c # cs = pre @ ''CUSA'' @ ds @ post"
        and m: "m = ''CUSA'' @ ds" and ne: "ds \<noteq> []" and dg: "list_all is_digit ds"
        and stop: "post = [] \<or> \<not> is_digit (hd post)"
        and left: "\<forall>p d q. c # cs = p @ ''CUSA'' @ d # q \<and> is_digit d \<longrightarrow> length pre \<le> length p"
        by blast
      from Some obtain ds' post' where s': "c # cs = ''CUSA'' @ ds' @ post'" and ne': "ds' \<noteq> []"
        and dg': "list_all is_digit ds'"
        unfolding match_cusa_iff by blast
      obtain d r where "ds' = d # r" using ne' by (cases ds') auto
      then have "c # cs = [] @ ''CUSA'' @ d # (r @ post')" "is_digit d" using s' dg' by simp_all
      then have "length pre \<le> length ([]::string)" using left by blast
      then have "pre = []" by simp
      then have "match_cusa (c # cs) = Some m"
        unfolding match_cusa_iff using s m ne dg stop by auto
      then show "search_cusa (c # cs) = Some m" by simp
    qed
  next
    case None
    have l: "search_cusa (c # cs) = search_cusa cs" using None by simp
    have nohead: "\<forall>d q. is_digit d \<longrightarrow> c # cs \<noteq> ''CUSA'' @ d # q"
      using None unfolding match_cusa_None_iff .
    show ?thesis
    proof
      assume "search_cusa (c # cs) = Some m"
      then have "search_cusa cs = Some m" using l by simp
      then obtain pre ds post where s: "cs = pre @ ''CUSA'' @ ds @ post"
        and m: "m = ''CUSA'' @ ds" and ne: "ds \<noteq> []" and dg: "list_all is_digit ds"
        and stop: "post = [] \<or> \<not> is_digit (hd post)"
        and left: "\<forall>p d q. cs = p @ ''CUSA'' @ d # q \<and> is_digit d \<longrightarrow> length pre \<le> length p"
        unfolding Cons.IH by blast
      have "\<forall>p d q. c # cs = p @ ''CUSA'' @ d # q \<and> is_digit d \<longrightarrow> length (c # pre) \<le> length p"
      proof (intro allI impI)
        fix p d q assume a: "c # cs = p @ ''CUSA'' @ d # q \<and> is_digit d"
        show "length (c # pre) \<le> length p"
        proof (cases p)
          case Nil
          then show ?thesis using a nohead by auto
        next
          case (Cons x p')
          then have "cs = p' @ ''CUSA'' @ d # q" using a by simp
          then have "length pre \<le> length p'" using left a by blast
          then show ?thesis using Cons by simp
        qed
      qed
      moreover have "c # cs = (c # pre) @ ''CUSA'' @ ds @ post" using s by simp
      ultimately show "\<exists>pre ds post. c # cs = pre @ ''CUSA'' @ ds @ post \<and> m = ''CUSA'' @ ds
          \<and> ds \<noteq> [] \<and> list_all is_digit ds \<and> (post = [] \<or> \<not> is_digit (hd post))
          \<and> (\<forall>p d q. c # cs = p @ ''CUSA'' @ d # q \<and> is_digit d \<longrightarrow> length pre \<le> length p)"
        using m ne dg stop by blast
    next
      assume "\<exists>pre ds post. c # cs = pre @ ''CUSA'' @ ds @ post \<and> m = ''CUSA'' @ ds
          \<and> ds \<noteq> [] \<and> list_all is_digit ds \<and> (post = [] \<or> \<not> is_digit (hd post))
          \<and> (\<forall>p d q. c # cs = p @ ''CUSA'' @ d # q \<and> is_digit d \<longrightarrow> length pre \<le> length p)"
      then obtain pre ds post where s: "c # cs = pre @ ''CUSA'' @ ds @ post"
        and m: "m = ''CUSA'' @ ds" and ne: "ds \<noteq> []" and dg: "list_all is_digit ds"
        and stop: "post = [] \<or> \<not> is_digit (hd post)"
        and left: "\<forall>p d q. c # cs = p @ ''CUSA'' @ d # q \<and> is_digit d \<longrightarrow> length pre \<le> length p"
        by blast
      obtain d r where d: "ds = d # r" using ne by (cases ds) auto
      have dd: "is_digit d" using d dg by simp
      have "pre \<noteq> []"
      proof
        assume "pre = []"
        then have "c # cs = ''CUSA'' @ d # (r @ post)" using s d by simp
        then show False using nohead dd by blast
      qed
      then obtain pre' where pre: "pre = c # pre'" using s by (cases pre) auto
      have s': "cs = pre' @ ''CUSA'' @ ds @ post" using s pre by simp
      have "\<forall>p d q. cs = p @ ''CUSA'' @ d # q \<and> is_digit d \<longrightarrow> length pre' \<le> length p"
      proof (intro allI impI)
        fix p e q assume a: "cs = p @ ''CUSA'' @ e # q \<and> is_digit e"
        then have "c # cs = (c # p) @ ''CUSA'' @ e # q \<and> is_digit e" by simp
        then have "length pre \<le> length (c # p)" using left by blast
        then show "length pre' \<le> length p" using pre by simp
      qed
      then have "search_cusa cs = Some m"
        unfolding Cons.IH using s' m ne dg stop by blast
      then show "search_cusa (c # cs) = Some m" using l by simp
    qed
  qed
qed

lemma search_cusa_None_iff:
  "search_cusa s = None \<longleftrightarrow> (\<forall>p d q. is_digit d \<longrightarrow> s \<noteq> p @ ''CUSA'' @ d # q)"
proof
  assume n: "search_cusa s = None"
  show "\<forall>p d q. is_digit d \<longrightarrow> s \<noteq> p @ ''CUSA'' @ d # q"
    using n search_cusa_anywhere by blast
next
  assume a: "\<forall>p d q. is_digit d \<longrightarrow> s \<noteq> p @ ''CUSA'' @ d # q"
  show "search_cusa s = None"
  proof (rule ccontr)
    assume "search_cusa s \<noteq> None"
    then obtain m where "search_cusa s = Some m" by auto
    then obtain pre ds post where s: "s = pre @ ''CUSA'' @ ds @ post" and ne: "ds \<noteq> []"
      and dg: "list_all is_digit ds"
      unfolding search_cusa_Some_iff by blast
    obtain d r where "ds = d # r" using ne by (cases ds) auto
    then have "is_digit d" "s = pre @ ''CUSA'' @ d # (r @ post)" using dg s by simp_all
    with a show False by blast
  qed
qed

lemma load_csv_rows_fold:
  "load_csv_rows csv_path rows (db, n)
     = (foldl store db (List.map_filter (csv_entry csv_path) rows),
        n + length (List.map_filter (csv_entry csv_path) rows))"
  by (induction rows arbitrary: db n)
     (auto simp: csv_entry_def csv_key_def store_def Let_def
        split: option.splits)

lemma load_json_results_fold:
  "load_json_results json_path results (db, n)
     = (foldl store db (List.map_filter (json_entry json_path) results),
        n + length (List.map_filter (json_entry json_path) results))"
  by (induction results arbitrary: db n)
     (auto simp: json_entry_def json_key_def store_def Let_def
        split: option.splits)

lemma keys_foldl_store: "fst ` set (foldl store db es) = fst ` set db \<union> fst ` set es"
  by (induction es arbitrary: db) (auto simp: store_def dom_update)

lemma distinct_foldl_store:
  "distinct (map fst db) \<Longrightarrow> distinct (map fst (foldl store db es))"
  by (induction es arbitrary: db) (auto simp: store_def distinct_update)

lemma map_of_foldl_store:
  "map_of (foldl store db es) k
     = (case map_of (rev es) k of None \<Rightarrow> map_of db k | Some v \<Rightarrow> Some v)"
proof (induction es arbitrary: db)
  case Nil
  then show ?case by simp
next
  case (Cons e es)
  have s: "map_of (store db e) j = (if j = fst e then Some (snd e) else map_of db j)" for j
    by (simp add: store_def update_conv')
  have r: "map_of (rev (e # es)) k
      = (case map_of (rev es) k of
           None \<Rightarrow> (if k = fst e then Some (snd e) else None) | Some v \<Rightarrow> Some v)"
    by (cases e) (auto simp: map_add_def split: option.splits)
  have "map_of (foldl store db (e # es)) k
      = (case map_of (rev es) k of None \<Rightarrow> map_of (store db e) k | Some v \<Rightarrow> Some v)"
    using Cons.IH [of "store db e"] by simp
  also have "\<dots> = (case map_of (rev (e # es)) k of None \<Rightarrow> map_of db k | Some v \<Rightarrow> Some v)"
    unfolding r s by (simp split: option.splits)
  finally show ?case .
qed

lemma keys_map_filter_entry:
  "fst ` set (List.map_filter (csv_entry csv_path) rows) = {m. \<exists>row\<in>set rows. csv_key row = Some m}"
  by (force simp: List.map_filter_def csv_entry_def split: option.splits)

lemma keys_map_filter_json:
  "fst ` set (List.map_filter (json_entry json_path) results)
     = {m. \<exists>result\<in>set results. json_key result = Some m}"
  by (force simp: List.map_filter_def json_entry_def split: option.splits)

lemma length_map_filter_csv:
  "length (List.map_filter (csv_entry csv_path) rows) = length (filter (\<lambda>row. csv_key row \<noteq> None) rows)"
  by (induction rows) (auto simp: csv_entry_def split: option.splits)

lemma length_map_filter_json:
  "length (List.map_filter (json_entry json_path) results)
     = length (filter (\<lambda>result. json_key result \<noteq> None) results)"
  by (induction results) (auto simp: json_entry_def split: option.splits)


lemma load_source_fold: "load_source s db = foldl store db (source_entries s)"
proof (cases s)
  case (CsvSource csv_path df)
  then show ?thesis
    by (cases df) (simp_all add: load_csv_data_def load_csv_rows_fold)
next
  case (JsonSource json_path data)
  then show ?thesis
    by (cases data) (simp_all add: load_json_data_def load_json_results_fold)
qed

lemma source_identifiers_entries: "source_identifiers s = fst ` set (source_entries s)"
  by (simp add: source_identifiers_def)

lemma keys_load_source: "fst ` set (load_source s db) = fst ` set db \<union> source_identifiers s"
  by (simp add: source_identifiers_entries load_source_fold keys_foldl_store)

lemma distinct_load_source: "distinct (map fst db) \<Longrightarrow> distinct (map fst (load_source s db))"
  by (simp add: load_source_fold distinct_foldl_store)

lemma map_of_load_source:
  "map_of (load_source s db) c
     = (case map_of (rev (source_entries s)) c of None \<Rightarrow> map_of db c | Some r \<Rightarrow> Some r)"
  unfolding load_source_fold by (rule map_of_foldl_store)

lemma load_source_second:
  "map_of (rev (source_entries second)) c = Some r \<Longrightarrow>
   map_of (load_source second (load_source first db)) c = Some r"
  by (simp add: map_of_load_source)

lemma keys_load_sources:
  "fst ` set (load_sources sources db) = fst ` set db \<union> \<Union> (source_identifiers ` set sources)"
  unfolding load_sources_def
  by (induction sources arbitrary: db) (auto simp: keys_load_source)

lemma distinct_load_sources:
  "distinct (map fst db) \<Longrightarrow> distinct (map fst (load_sources sources db))"
  unfolding load_sources_def
  by (induction sources arbitrary: db) (auto simp: distinct_load_source)

lemma length_distinct_keys: "distinct (map fst db) \<Longrightarrow> length db = card (fst ` set db)"
  using distinct_card [of "map fst db"] by simp

lemma length_load_sources:
  "length (load_sources sources []) = card (\<Union> (source_identifiers ` set sources))"
  using length_distinct_keys [OF distinct_load_sources [of "[]" sources]]
  by (simp add: keys_load_sources)

lemma keys_load_csv:
  "fst ` set (fst (load_csv_data csv_path (CsvRows rows) db))
     = fst ` set db \<union> {m. \<exists>row\<in>set rows. csv_key row = Some m}"
  by (simp add: load_csv_data_def load_csv_rows_fold keys_foldl_store keys_map_filter_entry)

lemma keys_load_json:
  "fst ` set (fst (load_json_data json_path (JsonResults results) db))
     = fst ` set db \<union> {m. \<exists>result\<in>set results. json_key result = Some m}"
  by (simp add: load_json_data_def load_json_results_fold keys_foldl_store keys_map_filter_json)

lemma count_load_csv:
  "snd (load_csv_data csv_path (CsvRows rows) db) = length (filter (\<lambda>row. csv_key row \<noteq> None) rows)"
  by (simp add: load_csv_data_def load_csv_rows_fold length_map_filter_csv)

lemma count_load_json:
  "snd (load_json_data json_path (JsonResults results) db)
     = length (filter (\<lambda>result. json_key result \<noteq> None) results)"
  by (simp add: load_json_data_def load_json_results_fold length_map_filter_json)

lemma load_csv_full:
  "load_csv_data csv_path (CsvRows rows) db
     = (foldl store db (List.map_filter (csv_entry csv_path) rows),
        length (filter (\<lambda>row. csv_key row \<noteq> None) rows))"
  by (simp add: load_csv_data_def load_csv_rows_fold length_map_filter_csv)

lemma load_json_full:
  "load_json_data json_path (JsonResults results) db
     = (foldl store db (List.map_filter (json_entry json_path) results),
        length (filter (\<lambda>result. json_key result \<noteq> None) results))"
  by (simp add: load_json_data_def load_json_results_fold length_map_filter_json)

text \<open>
  Claim C4, as the code has it. Both loaders look for the pattern \<open>CUSA\d+\<close>, not for
  any four capitals followed by digits. The search succeeds exactly when \<open>CUSA\<close> and a
  digit occur somewhere in the raw field, and what it returns is the leftmost such
  occurrence with all the digits that follow it: the field is a prefix, then \<open>CUSA\<close> and
  a non-empty run of digits that no digit follows, and no occurrence starts before that
  prefix ends. The CSV loader stores a record for every row whose \<open>Title_ID\<close>, stripped,
  has such a part, the JSON loader for every entry with status \<open>found\<close>, the key
  \<open>updates\<close>, a non-empty name and such a part in \<open>title_id\<close>: the store after a load
  is the store before with the records of the accepted rows written in order, its
  identifiers are those it had and those of the accepted records, and the count returned
  is the number of accepted records, so that a record without such an identifier is
  dropped and not counted.
\<close>

theorem loaders_search_cusa:
  "(is_digit d \<longrightarrow> search_cusa (pre @ ''CUSA'' @ d # post) \<noteq> None)
   \<and> (search_cusa s = Some m) =
       (\<exists>pre' ds post'. s = pre' @ ''CUSA'' @ ds @ post' \<and> m = ''CUSA'' @ ds \<and> ds \<noteq> []
          \<and> list_all is_digit ds \<and> (post' = [] \<or> \<not> is_digit (hd post'))
          \<and> (\<forall>p e q. s = p @ ''CUSA'' @ e # q \<and> is_digit e \<longrightarrow> length pre' \<le> length p))
   \<and> (search_cusa s' = None) = (\<forall>p e q. is_digit e \<longrightarrow> s' \<noteq> p @ ''CUSA'' @ e # q)
   \<and> load_csv_data csv_path (CsvRows rows) db
        = (foldl store db (List.map_filter (csv_entry csv_path) rows),
           length (filter (\<lambda>row. csv_key row \<noteq> None) rows))
   \<and> fst ` set (fst (load_csv_data csv_path (CsvRows rows) db))
        = fst ` set db \<union> {m. \<exists>row\<in>set rows. csv_key row = Some m}
   \<and> snd (load_csv_data csv_path (CsvRows rows) db)
        = length (filter (\<lambda>row. csv_key row \<noteq> None) rows)
   \<and> load_json_data json_path (JsonResults results) db'
        = (foldl store db' (List.map_filter (json_entry json_path) results),
           length (filter (\<lambda>result. json_key result \<noteq> None) results))
   \<and> fst ` set (fst (load_json_data json_path (JsonResults results) db'))
        = fst ` set db' \<union> {m. \<exists>result\<in>set results. json_key result = Some m}
   \<and> snd (load_json_data json_path (JsonResults results) db')
        = length (filter (\<lambda>result. json_key result \<noteq> None) results)"
proof (intro conjI impI)
  show "search_cusa (pre @ ''CUSA'' @ d # post) \<noteq> None" if "is_digit d"
    using that by (rule search_cusa_anywhere)
  show "(search_cusa s = Some m) =
       (\<exists>pre' ds post'. s = pre' @ ''CUSA'' @ ds @ post' \<and> m = ''CUSA'' @ ds \<and> ds \<noteq> []
          \<and> list_all is_digit ds \<and> (post' = [] \<or> \<not> is_digit (hd post'))
          \<and> (\<forall>p e q. s = p @ ''CUSA'' @ e # q \<and> is_digit e \<longrightarrow> length pre' \<le> length p))"
    by (rule search_cusa_Some_iff)
  show "(search_cusa s' = None) = (\<forall>p e q. is_digit e \<longrightarrow> s' \<noteq> p @ ''CUSA'' @ e # q)"
    by (rule search_cusa_None_iff)
  show "load_csv_data csv_path (CsvRows rows) db
        = (foldl store db (List.map_filter (csv_entry csv_path) rows),
           length (filter (\<lambda>row. csv_key row \<noteq> None) rows))"
    by (rule load_csv_full)
  show "fst ` set (fst (load_csv_data csv_path (CsvRows rows) db))
        = fst ` set db \<union> {m. \<exists>row\<in>set rows. csv_key row = Some m}"
    by (rule keys_load_csv)
  show "snd (load_csv_data csv_path (CsvRows rows) db)
        = length (filter (\<lambda>row. csv_key row \<noteq> None) rows)"
    by (rule count_load_csv)
  show "load_json_data json_path (JsonResults results) db'
        = (foldl store db' (List.map_filter (json_entry json_path) results),
           length (filter (\<lambda>result. json_key result \<noteq> None) results))"
    by (rule load_json_full)
  show "fst ` set (fst (load_json_data json_path (JsonResults results) db'))
        = fst ` set db' \<union> {m. \<exists>result\<in>set results. json_key result = Some m}"
    by (rule keys_load_json)
  show "snd (load_json_data json_path (JsonResults results) db')
        = length (filter (\<lambda>result. json_key result \<noteq> None) results)"
    by (rule count_load_json)
qed

lemmas eval_search = match_cusa_def strip_def lstrip_def rstrip_def is_space_def
  whitespace_chars_def is_digit_def

lemma search_example: "search_cusa ''UP0017-CUSA00012_00'' = Some ''CUSA00012''"
  by (simp add: eval_search)

lemma search_leftmost_example: "search_cusa ''CUSA11-CUSA22'' = Some ''CUSA11''"
  by (simp add: eval_search)

theorem loaders_search_cusa_witness:
  "(\<exists>pre ds post. ''CUSA11-CUSA22'' = pre @ ''CUSA'' @ ds @ post \<and> ''CUSA11'' = ''CUSA'' @ ds
      \<and> ds \<noteq> [] \<and> list_all is_digit ds \<and> (post = [] \<or> \<not> is_digit (hd post))
      \<and> (\<forall>p e q. ''CUSA11-CUSA22'' = p @ ''CUSA'' @ e # q \<and> is_digit e
            \<longrightarrow> length pre \<le> length p))
   \<and> search_cusa (''UP0017-'' @ ''CUSA'' @ CHR ''0'' # ''0012_00'') = Some ''CUSA00012''
   \<and> load_csv_data ''a.csv''
        (CsvRows [\<lparr>Title_ID = ''UP0017-CUSA00012_00'', Title_Name = ''Example Game'',
                   Version = Some ''0283''\<rparr>,
                  \<lparr>Title_ID = ''PCJS00012'', Title_Name = ''Other Game'', Version = None\<rparr>])
        []
     = ([(''CUSA00012'',
          \<lparr>name = ''Example Game'', version = ''0283'', source = ''CSV:a.csv''\<rparr>)], 1)
   \<and> load_json_data ''b.json''
        (JsonResults [\<lparr>status = Some ''found'', has_updates = True,
                       title_id = Some ''UP0017-CUSA00012_00'', title_name = Some ''Example Game'',
                       sony_game_name = None, latest_version = Some ''02.83''\<rparr>,
                      \<lparr>status = Some ''found'', has_updates = True,
                       title_id = Some ''UP0017-CUSA00012_00'', title_name = None,
                       sony_game_name = None, latest_version = None\<rparr>])
        []
     = ([(''CUSA00012'',
          \<lparr>name = ''Example Game'', version = ''02.83'', source = ''JSON:b.json''\<rparr>)], 1)"
proof -
  let ?r1 = "\<lparr>Title_ID = ''UP0017-CUSA00012_00'', Title_Name = ''Example Game'',
              Version = Some ''0283''\<rparr>"
  let ?r2 = "\<lparr>Title_ID = ''PCJS00012'', Title_Name = ''Other Game'', Version = None\<rparr>"
  let ?j1 = "\<lparr>status = Some ''found'', has_updates = True,
              title_id = Some ''UP0017-CUSA00012_00'', title_name = Some ''Example Game'',
              sony_game_name = None, latest_version = Some ''02.83''\<rparr>"
  let ?j2 = "\<lparr>status = Some ''found'', has_updates = True,
              title_id = Some ''UP0017-CUSA00012_00'', title_name = None,
              sony_game_name = None, latest_version = None\<rparr>"
  note t = loaders_search_cusa [where d = "CHR ''0''" and pre = "''UP0017-''"
      and post = "''0012_00''" and s = "''CUSA11-CUSA22''" and m = "''CUSA11''"
      and csv_path = "''a.csv''" and rows = "[?r1, ?r2]" and db = "[]"
      and json_path = "''b.json''" and results = "[?j1, ?j2]" and db' = "[]"]
  have dg: "is_digit CHR ''0''" by (simp add: is_digit_def)
  have k1: "csv_key ?r1 = Some ''CUSA00012''" by (simp add: csv_key_def eval_search)
  have k2: "csv_key ?r2 = None" by (simp add: csv_key_def eval_search)
  have j1: "json_key ?j1 = Some ''CUSA00012''" by (simp add: json_key_def get_or_def eval_search)
  have j2: "json_key ?j2 = None" by (simp add: json_key_def get_or_def)
  have st: "strip ''Example Game'' = ''Example Game''" "strip ''0283'' = ''0283''"
    by (simp_all add: strip_def lstrip_def rstrip_def is_space_def whitespace_chars_def)
  have a: "\<exists>pre ds post. ''CUSA11-CUSA22'' = pre @ ''CUSA'' @ ds @ post \<and> ''CUSA11'' = ''CUSA'' @ ds
      \<and> ds \<noteq> [] \<and> list_all is_digit ds \<and> (post = [] \<or> \<not> is_digit (hd post))
      \<and> (\<forall>p e q. ''CUSA11-CUSA22'' = p @ ''CUSA'' @ e # q \<and> is_digit e
            \<longrightarrow> length pre \<le> length p)"
    using t [THEN conjunct2, THEN conjunct1] search_leftmost_example by (rule iffD1)
  have "search_cusa (''UP0017-'' @ ''CUSA'' @ CHR ''0'' # ''0012_00'') \<noteq> None"
    using t [THEN conjunct1] dg by (rule mp)
  then have b: "search_cusa (''UP0017-'' @ ''CUSA'' @ CHR ''0'' # ''0012_00'') = Some ''CUSA00012''"
    using search_example by simp
  have c: "load_csv_data ''a.csv'' (CsvRows [?r1, ?r2]) []
      = ([(''CUSA00012'',
           \<lparr>name = ''Example Game'', version = ''0283'', source = ''CSV:a.csv''\<rparr>)], 1)"
    using t [THEN conjunct2, THEN conjunct2, THEN conjunct2, THEN conjunct1]
    by (simp add: csv_entry_def k1 k2 st store_def)
  have d: "load_json_data ''b.json'' (JsonResults [?j1, ?j2]) []
      = ([(''CUSA00012'',
           \<lparr>name = ''Example Game'', version = ''02.83'', source = ''JSON:b.json''\<rparr>)], 1)"
    using t [THEN conjunct2, THEN conjunct2, THEN conjunct2, THEN conjunct2, THEN conjunct2,
        THEN conjunct2, THEN conjunct1]
    by (simp add: json_entry_def j1 j2 get_or_def store_def)
  show ?thesis using a b c d by (intro conjI)
qed

text \<open>
  Claim C4 as stated fails: \<open>PCJS00012\<close> is four capitals followed by digits, and a record
  with that raw field and a non-empty name is stored by neither loader.
\<close>

theorem loaders_four_capitals_counterexample:
  "is_identifier ''PCJS00012''
   \<and> load_csv_data ''a.csv''
        (CsvRows [\<lparr>Title_ID = ''PCJS00012'', Title_Name = ''Example Game'',
                   Version = Some ''0100''\<rparr>]) [] = ([], 0)
   \<and> load_json_data ''b.json''
        (JsonResults [\<lparr>status = Some ''found'', has_updates = True,
                       title_id = Some ''PCJS00012'', title_name = Some ''Example Game'',
                       sony_game_name = None, latest_version = Some ''01.00''\<rparr>]) [] = ([], 0)"
  by (simp add: is_identifier_def is_upper_def is_digit_def load_csv_data_def load_json_data_def
      get_or_def strip_def lstrip_def rstrip_def is_space_def whitespace_chars_def match_cusa_def)


text \<open>
  Claim C7. The store has at most one record for an identifier: loading a source keeps
  the identifiers of the store distinct, and so does any sequence of loads from the empty
  store. A load replaces the record of an identifier as a whole: after it, an identifier
  that the rows of the source hold has the record of the last row that holds it,
  whatever the store held before, and any other identifier has the record it had. So when
  two sources hold the same identifier, loading one and then the other leaves the record
  of the second. The size of the store, which is the \<open>database_size\<close> of the report, is
  the number of distinct identifiers in the rows of the sources loaded, however many
  sources and rows there are.
\<close>

theorem store_last_write_wins:
  "(distinct (map fst db) \<longrightarrow> distinct (map fst (load_source s db)))
   \<and> distinct (map fst (load_sources sources []))
   \<and> map_of (load_source s db') c
        = (case map_of (rev (source_entries s)) c of None \<Rightarrow> map_of db' c | Some r \<Rightarrow> Some r)
   \<and> (map_of (rev (source_entries second)) c' = Some r' \<longrightarrow>
        map_of (load_source second (load_source first db'')) c' = Some r')
   \<and> length (load_sources sources []) = card (\<Union> (source_identifiers ` set sources))
   \<and> database_size (save_report (self\<lparr>game_database := load_sources sources []\<rparr>) st dry_run)
        = card (\<Union> (source_identifiers ` set sources))"
proof (intro conjI impI)
  show "distinct (map fst (load_source s db))" if "distinct (map fst db)"
    using that by (rule distinct_load_source)
  show "distinct (map fst (load_sources sources []))"
    by (rule distinct_load_sources) simp
  show "map_of (load_source s db') c
        = (case map_of (rev (source_entries s)) c of None \<Rightarrow> map_of db' c | Some r \<Rightarrow> Some r)"
    by (rule map_of_load_source)
  show "map_of (load_source second (load_source first db'')) c' = Some r'"
    if "map_of (rev (source_entries second)) c' = Some r'"
    using that by (rule load_source_second)
  show "length (load_sources sources []) = card (\<Union> (source_identifiers ` set sources))"
    by (rule length_load_sources)
  then show "database_size (save_report (self\<lparr>game_database := load_sources sources []\<rparr>) st dry_run)
      = card (\<Union> (source_identifiers ` set sources))"
    by (simp add: save_report_def)
qed

theorem store_last_write_wins_witness:
  "map_of
     (load_source
        (JsonSource ''b.json''
           (JsonResults [\<lparr>status = Some ''found'', has_updates = True,
                          title_id = Some ''CUSA00012'', title_name = Some ''New Name'',
                          sony_game_name = None, latest_version = Some ''02.83''\<rparr>]))
        (load_source
           (CsvSource ''a.csv''
              (CsvRows [\<lparr>Title_ID = ''CUSA00012'', Title_Name = ''Old Name'',
                         Version = Some ''0100''\<rparr>])) []))
     ''CUSA00012''
     = Some \<lparr>name = ''New Name'', version = ''02.83'', source = ''JSON:b.json''\<rparr>
   \<and> map_of
        (load_source
           (CsvSource ''a.csv''
              (CsvRows [\<lparr>Title_ID = ''CUSA00012'', Title_Name = ''Old Name'',
                         Version = Some ''0100''\<rparr>])) [])
        ''CUSA00012''
     = Some \<lparr>name = ''Old Name'', version = ''0100'', source = ''CSV:a.csv''\<rparr>
   \<and> distinct (map fst
        (load_source
           (JsonSource ''b.json''
              (JsonResults [\<lparr>status = Some ''found'', has_updates = True,
                             title_id = Some ''CUSA00012'', title_name = Some ''New Name'',
                             sony_game_name = None, latest_version = Some ''02.83''\<rparr>]))
           (load_source
              (CsvSource ''a.csv''
                 (CsvRows [\<lparr>Title_ID = ''CUSA00012'', Title_Name = ''Old Name'',
                            Version = Some ''0100''\<rparr>])) [])))
   \<and> length
        (load_sources
           [CsvSource ''a.csv''
              (CsvRows [\<lparr>Title_ID = ''CUSA00012'', Title_Name = ''Old Name'',
                         Version = Some ''0100''\<rparr>]),
            JsonSource ''b.json''
              (JsonResults [\<lparr>status = Some ''found'', has_updates = True,
                             title_id = Some ''CUSA00012'', title_name = Some ''New Name'',
                             sony_game_name = None, latest_version = Some ''02.83''\<rparr>])]
           []) = 1"
proof -
  let ?row = "\<lparr>Title_ID = ''CUSA00012'', Title_Name = ''Old Name'', Version = Some ''0100''\<rparr>"
  let ?res = "\<lparr>status = Some ''found'', has_updates = True,
                     title_id = Some ''CUSA00012'', title_name = Some ''New Name'',
                     sony_game_name = None, latest_version = Some ''02.83''\<rparr>"
  let ?csv = "CsvSource ''a.csv'' (CsvRows [?row])"
  let ?json = "JsonSource ''b.json'' (JsonResults [?res])"
  let ?old = "\<lparr>name = ''Old Name'', version = ''0100'', source = ''CSV:a.csv''\<rparr>"
  let ?new = "\<lparr>name = ''New Name'', version = ''02.83'', source = ''JSON:b.json''\<rparr>"
  have ec: "source_entries ?csv = [(''CUSA00012'', ?old)]"
    by (simp add: csv_entry_def csv_key_def eval_search)
  have ej: "source_entries ?json = [(''CUSA00012'', ?new)]"
    by (simp add: json_entry_def json_key_def get_or_def eval_search)
  have ic: "source_identifiers ?csv = {''CUSA00012''}"
    unfolding source_identifiers_def ec by simp
  have ij: "source_identifiers ?json = {''CUSA00012''}"
    unfolding source_identifiers_def ej by simp
  note t = store_last_write_wins [where db = "[]" and s = ?csv and db' = "[]"
      and c = "''CUSA00012''" and second = ?json and first = ?csv and db'' = "[]"
      and c' = "''CUSA00012''" and r' = ?new and sources = "[?csv, ?json]"]
  have h2: "map_of (rev (source_entries ?json)) ''CUSA00012'' = Some ?new"
    unfolding ej by simp
  have a: "map_of (load_source ?json (load_source ?csv [])) ''CUSA00012'' = Some ?new"
    using t [THEN conjunct2, THEN conjunct2, THEN conjunct2, THEN conjunct1] h2 by (rule mp)
  have b: "map_of (load_source ?csv []) ''CUSA00012'' = Some ?old"
    using t [THEN conjunct2, THEN conjunct2, THEN conjunct1] unfolding ec by simp
  have "distinct (map fst (load_source ?csv []))"
    using t [THEN conjunct1] by simp
  then have c: "distinct (map fst (load_source ?json (load_source ?csv [])))"
    using store_last_write_wins [where db = "load_source ?csv []" and s = ?json,
        THEN conjunct1] by (rule rev_mp)
  have "length (load_sources [?csv, ?json] [])
      = card (\<Union> (source_identifiers ` set [?csv, ?json]))"
    using t [THEN conjunct2, THEN conjunct2, THEN conjunct2, THEN conjunct2, THEN conjunct1] .
  then have d: "length (load_sources [?csv, ?json] []) = 1"
    by (simp add: ic ij)
  show ?thesis using a b c d by (intro conjI)
qed

section \<open>Properties of the pass over the directory\<close>

lemma process_file_cases:
  "process_file dry_run pkg_file (self, fs, st, trace) =
     (case planned_target (game_database self) pkg_file of
        None \<Rightarrow>
          (self, fs, st\<lparr>error_count := error_count st + 1\<rparr>,
           trace @ [(pkg_file,
              if parse_filename pkg_file = None then SkippedNoParse else SkippedNoMetadata)])
      | Some t \<Rightarrow>
          if path_exists fs t then
            (self, fs, st\<lparr>error_count := error_count st + 1, processed := processed st + 1\<rparr>,
             trace @ [(pkg_file, SkippedCollision t)])
          else if dry_run then
            (self\<lparr>renamed_files := renamed_files self @
               [\<lparr>original = pkg_file, new = t, path = target_directory self\<rparr>]\<rparr>,
             fs, st\<lparr>renamed := renamed st + 1, processed := processed st + 1\<rparr>,
             trace @ [(pkg_file, Renamed t)])
          else
            (case path_rename fs pkg_file t of
               Inr fs' \<Rightarrow>
                 (self\<lparr>renamed_files := renamed_files self @
                    [\<lparr>original = pkg_file, new = t, path = target_directory self\<rparr>]\<rparr>,
                  fs', st\<lparr>renamed := renamed st + 1, processed := processed st + 1\<rparr>,
                  trace @ [(pkg_file, Renamed t)])
             | Inl e \<Rightarrow>
                 (self\<lparr>errors := errors self @ [\<lparr>file_name = pkg_file, error = e\<rparr>]\<rparr>,
                  fs, st\<lparr>error_count := error_count st + 1, processed := processed st + 1\<rparr>,
                  trace @ [(pkg_file, Failed t e)])))"
  by (auto simp: process_file_def planned_target_def rename_file_def
      split: option.splits sum.splits)





lemma format_version_0110: "format_version ''01.10'' = ''01.10''"
  by (rule format_version_dotted) (simp add: dotted_core_def is_digit_def)

lemmas eval_target = planned_target_def generate_new_filename_def eval_parse eval_sanitize
  format_version_0283 format_version_0110

lemmas eval_pass = process_file_cases path_exists_def path_rename_def

lemma planned_example_game:
  "planned_target
     [(''CUSA00012'', \<lparr>name = ''Example Game'', version = ''0283'', source = ''CSV:a.csv''\<rparr>),
      (''CUSA00008'', \<lparr>name = ''Other Game'', version = ''01.10'', source = ''CSV:a.csv''\<rparr>)]
     ''CUSA00012-DCUO-V0100.pkg'' = Some ''Example Game [UPDATE 2.83][CUSA00012].pkg''"
  by (simp add: eval_target)




lemma process_file_skipped:
  "skipped (pass_stats (process_file dry_run pkg_file state)) = skipped (pass_stats state)"
  by (cases state)
     (auto simp: process_file_cases pass_stats_def split: option.splits sum.splits)

lemma process_files_skipped:
  "skipped (pass_stats (process_files dry_run files state)) = skipped (pass_stats state)"
  by (induction files arbitrary: state) (simp_all add: process_file_skipped)

lemma process_directory_skipped:
  "skipped (pass_stats (process_directory dry_run self fs)) = 0"
  by (simp add: process_directory_def Let_def process_files_skipped) (simp add: pass_stats_def)

text \<open>
  Claim C3. The pass does not count a parse failure or a metadata miss as a skip: both
  add one to the key \<open>errors\<close> of the statistics, and the key \<open>skipped\<close>, which
  the pass sets to zero and \<open>main\<close> prints, is never raised
  (\<open>process_directory_skipped\<close>). For a directory holding a name that does not parse and
  a name whose identifier has no record, the statistics show two errors and no skip,
  while the list \<open>errors\<close> of the renamer, which only a failed rename call extends,
  stays empty.
\<close>

theorem skips_counted_as_errors:
  "pass_stats (process_directory False
     \<lparr>target_directory = ''/games'',
      game_database =
        [(''CUSA00012'', \<lparr>name = ''Example Game'', version = ''0283'', source = ''CSV:a.csv''\<rparr>)],
      renamed_files = [], errors = []\<rparr>
     \<lparr>entries = [''readme.pkg'', ''CUSA00099-X-V0100.pkg''], fault = no_fault\<rparr>)
   = \<lparr>total_files = 2, processed = 0, renamed = 0, error_count = 2, skipped = 0\<rparr>
   \<and> pass_outcomes (process_directory False
     \<lparr>target_directory = ''/games'',
      game_database =
        [(''CUSA00012'', \<lparr>name = ''Example Game'', version = ''0283'', source = ''CSV:a.csv''\<rparr>)],
      renamed_files = [], errors = []\<rparr>
     \<lparr>entries = [''readme.pkg'', ''CUSA00099-X-V0100.pkg''], fault = no_fault\<rparr>)
   = [(''readme.pkg'', SkippedNoParse), (''CUSA00099-X-V0100.pkg'', SkippedNoMetadata)]
   \<and> errors (pass_renamer (process_directory False
     \<lparr>target_directory = ''/games'',
      game_database =
        [(''CUSA00012'', \<lparr>name = ''Example Game'', version = ''0283'', source = ''CSV:a.csv''\<rparr>)],
      renamed_files = [], errors = []\<rparr>
     \<lparr>entries = [''readme.pkg'', ''CUSA00099-X-V0100.pkg''], fault = no_fault\<rparr>))
   = []"
proof -
  let ?db = "[(''CUSA00012'', \<lparr>name = ''Example Game'', version = ''0283'', source = ''CSV:a.csv''\<rparr>)]"
  have g: "glob_pkg \<lparr>entries = [''readme.pkg'', ''CUSA00099-X-V0100.pkg''], fault = no_fault\<rparr>
      = [''readme.pkg'', ''CUSA00099-X-V0100.pkg'']"
    by (simp add: glob_pkg_def suffix_to_prefix)
  have p1: "parse_filename ''readme.pkg'' = None" by (simp add: eval_parse)
  have p2: "parse_filename ''CUSA00099-X-V0100.pkg'' \<noteq> None" by (simp add: eval_parse)
  have t1: "planned_target ?db ''readme.pkg'' = None" by (simp add: planned_target_def p1)
  have t2: "planned_target ?db ''CUSA00099-X-V0100.pkg'' = None" by (simp add: eval_target)
  show ?thesis
    by (simp add: process_directory_def g process_file_cases t1 t2 p1 p2
        pass_stats_def pass_outcomes_def pass_renamer_def)
qed

lemma process_file_accumulators:
  "process_file dry_run pkg_file
     (self\<lparr>renamed_files := rs @ renamed_files self, errors := es @ errors self\<rparr>, fs, st, trace)
   = (case process_file dry_run pkg_file (self, fs, st, trace) of
        (self', fs', st', trace') \<Rightarrow>
          (self'\<lparr>renamed_files := rs @ renamed_files self', errors := es @ errors self'\<rparr>,
           fs', st', trace'))"
  by (auto simp: process_file_cases split: option.splits sum.splits)

lemma process_files_accumulators:
  "process_files dry_run files
     (self\<lparr>renamed_files := rs @ renamed_files self, errors := es @ errors self\<rparr>, fs, st, trace)
   = (case process_files dry_run files (self, fs, st, trace) of
        (self', fs', st', trace') \<Rightarrow>
          (self'\<lparr>renamed_files := rs @ renamed_files self', errors := es @ errors self'\<rparr>,
           fs', st', trace'))"
proof (induction files arbitrary: self fs st trace)
  case Nil
  then show ?case by simp
next
  case (Cons f files)
  obtain self1 fs1 st1 trace1
    where p: "process_file dry_run f (self, fs, st, trace) = (self1, fs1, st1, trace1)"
    by (metis prod_cases4)
  show ?case by (simp add: process_file_accumulators p Cons.IH)
qed

lemma process_directory_accumulators:
  "process_directory dry_run self fs
   = (case process_directory dry_run (reset self) fs of
        (self', fs', st', trace') \<Rightarrow>
          (self'\<lparr>renamed_files := renamed_files self @ renamed_files self',
                 errors := errors self @ errors self'\<rparr>,
           fs', st', trace'))"
proof -
  have "self = (reset self)\<lparr>renamed_files := renamed_files self @ renamed_files (reset self),
      errors := errors self @ errors (reset self)\<rparr>"
    by (simp add: reset_def)
  then have "process_directory dry_run self fs
      = process_files dry_run (glob_pkg fs)
          ((reset self)\<lparr>renamed_files := renamed_files self @ renamed_files (reset self),
             errors := errors self @ errors (reset self)\<rparr>, fs,
           \<lparr>total_files = length (glob_pkg fs), processed = 0, renamed = 0, error_count = 0,
            skipped = 0\<rparr>, [])"
    by (simp add: process_directory_def Let_def)
  then show ?thesis
    by (simp only: process_files_accumulators) (simp add: process_directory_def Let_def)
qed

lemma pass_renamed_files:
  "renamed_files (pass_renamer (process_directory dry_run self fs))
     = renamed_files self @ renamed_files (pass_renamer (process_directory dry_run (reset self) fs))"
  by (subst process_directory_accumulators)
     (simp add: pass_renamer_def split: prod.splits)

lemma pass_errors:
  "errors (pass_renamer (process_directory dry_run self fs))
     = errors self @ errors (pass_renamer (process_directory dry_run (reset self) fs))"
  by (subst process_directory_accumulators)
     (simp add: pass_renamer_def split: prod.splits)

lemma pass_filesystem_reset:
  "pass_filesystem (process_directory dry_run (reset self) fs)
     = pass_filesystem (process_directory dry_run self fs)"
  by (subst (2) process_directory_accumulators)
     (simp add: pass_filesystem_def split: prod.splits)


text \<open>
  Claim C10. A pass only appends to \<open>renamed_files\<close> and \<open>errors\<close>: after it, each
  list is what it was before followed by the entries the pass adds. So after two
  consecutive passes on the same object, the report holds the entries that were there,
  those of the first pass and those of the second, in both lists.
\<close>

theorem accumulators_only_grow:
  "renamed_files (pass_renamer (process_directory dry_run self fs))
     = renamed_files self @ added_renamed dry_run self fs
   \<and> errors (pass_renamer (process_directory dry_run self fs))
     = errors self @ added_errors dry_run self fs
   \<and> report_renamed_files
       (save_report (pass_renamer (consecutive_passes first_dry second_dry self fs))
          (pass_stats (consecutive_passes first_dry second_dry self fs)) second_dry)
     = renamed_files self @ added_renamed first_dry self fs
         @ added_renamed second_dry (pass_renamer (process_directory first_dry self fs))
             (pass_filesystem (process_directory first_dry self fs))
   \<and> report_errors
       (save_report (pass_renamer (consecutive_passes first_dry second_dry self fs))
          (pass_stats (consecutive_passes first_dry second_dry self fs)) second_dry)
     = errors self @ added_errors first_dry self fs
         @ added_errors second_dry (pass_renamer (process_directory first_dry self fs))
             (pass_filesystem (process_directory first_dry self fs))"
proof (intro conjI)
  show "renamed_files (pass_renamer (process_directory dry_run self fs))
     = renamed_files self @ added_renamed dry_run self fs"
    unfolding added_renamed_def by (rule pass_renamed_files)
  show "errors (pass_renamer (process_directory dry_run self fs))
     = errors self @ added_errors dry_run self fs"
    unfolding added_errors_def by (rule pass_errors)
  show "report_renamed_files
       (save_report (pass_renamer (consecutive_passes first_dry second_dry self fs))
          (pass_stats (consecutive_passes first_dry second_dry self fs)) second_dry)
     = renamed_files self @ added_renamed first_dry self fs
         @ added_renamed second_dry (pass_renamer (process_directory first_dry self fs))
             (pass_filesystem (process_directory first_dry self fs))"
    unfolding added_renamed_def consecutive_passes_def save_report_def
    using pass_renamed_files
      [of second_dry "pass_renamer (process_directory first_dry self fs)"
        "pass_filesystem (process_directory first_dry self fs)"]
      pass_renamed_files [of first_dry self fs]
    by simp
  show "report_errors
       (save_report (pass_renamer (consecutive_passes first_dry second_dry self fs))
          (pass_stats (consecutive_passes first_dry second_dry self fs)) second_dry)
     = errors self @ added_errors first_dry self fs
         @ added_errors second_dry (pass_renamer (process_directory first_dry self fs))
             (pass_filesystem (process_directory first_dry self fs))"
    unfolding added_errors_def consecutive_passes_def save_report_def
    using pass_errors
      [of second_dry "pass_renamer (process_directory first_dry self fs)"
        "pass_filesystem (process_directory first_dry self fs)"]
      pass_errors [of first_dry self fs]
    by simp
qed


theorem accumulators_only_grow_witness:
  "report_renamed_files
     (save_report
        (pass_renamer (consecutive_passes True False
           \<lparr>target_directory = ''/games'',
            game_database =
              [(''CUSA00012'', \<lparr>name = ''Example Game'', version = ''0283'', source = ''CSV:a.csv''\<rparr>),
               (''CUSA00008'', \<lparr>name = ''Other Game'', version = ''01.10'', source = ''CSV:a.csv''\<rparr>)],
            renamed_files = [], errors = []\<rparr>
           \<lparr>entries = [''CUSA00012-DCUO-V0100.pkg''], fault = no_fault\<rparr>))
        (pass_stats (consecutive_passes True False
           \<lparr>target_directory = ''/games'',
            game_database =
              [(''CUSA00012'', \<lparr>name = ''Example Game'', version = ''0283'', source = ''CSV:a.csv''\<rparr>),
               (''CUSA00008'', \<lparr>name = ''Other Game'', version = ''01.10'', source = ''CSV:a.csv''\<rparr>)],
            renamed_files = [], errors = []\<rparr>
           \<lparr>entries = [''CUSA00012-DCUO-V0100.pkg''], fault = no_fault\<rparr>))
        False)
   = [\<lparr>original = ''CUSA00012-DCUO-V0100.pkg'',
       new = ''Example Game [UPDATE 2.83][CUSA00012].pkg'', path = ''/games''\<rparr>,
      \<lparr>original = ''CUSA00012-DCUO-V0100.pkg'',
       new = ''Example Game [UPDATE 2.83][CUSA00012].pkg'', path = ''/games''\<rparr>]"
proof -
  let ?db = "[(''CUSA00012'', \<lparr>name = ''Example Game'', version = ''0283'', source = ''CSV:a.csv''\<rparr>),
      (''CUSA00008'', \<lparr>name = ''Other Game'', version = ''01.10'', source = ''CSV:a.csv''\<rparr>)]"
  let ?S = "\<lparr>target_directory = ''/games'', game_database = ?db, renamed_files = [], errors = []\<rparr>"
  let ?F = "\<lparr>entries = [''CUSA00012-DCUO-V0100.pkg''], fault = no_fault\<rparr>"
  let ?e = "\<lparr>original = ''CUSA00012-DCUO-V0100.pkg'',
       new = ''Example Game [UPDATE 2.83][CUSA00012].pkg'', path = ''/games''\<rparr>"
  note t = accumulators_only_grow [where self = ?S and fs = ?F and first_dry = True and second_dry = False
      and dry_run = True]
  have g: "glob_pkg ?F = [''CUSA00012-DCUO-V0100.pkg'']"
    by (simp add: glob_pkg_def suffix_to_prefix)
  let ?S1 = "\<lparr>target_directory = ''/games'', game_database = ?db, renamed_files = [?e],
      errors = []\<rparr>"
  have p1: "process_directory True ?S ?F
      = (?S1, ?F,
         \<lparr>total_files = 1, processed = 1, renamed = 1, error_count = 0, skipped = 0\<rparr>,
         [(''CUSA00012-DCUO-V0100.pkg'', Renamed ''Example Game [UPDATE 2.83][CUSA00012].pkg'')])"
    by (simp add: process_directory_def g eval_pass planned_example_game)
  have p2: "renamed_files (pass_renamer (process_directory False ?S ?F)) = [?e]"
    by (simp add: process_directory_def g eval_pass planned_example_game no_fault_def
        pass_renamer_def)
  have r: "reset ?S = ?S" by (simp add: reset_def)
  have r1: "reset ?S1 = ?S" by (simp add: reset_def)
  have s1: "pass_renamer (process_directory True ?S ?F) = ?S1"
    unfolding p1 by (simp add: pass_renamer_def)
  have f1: "pass_filesystem (process_directory True ?S ?F) = ?F"
    unfolding p1 by (simp add: pass_filesystem_def)
  have a1: "added_renamed True ?S ?F = [?e]"
    unfolding added_renamed_def r s1 by simp
  have a2: "added_renamed False (pass_renamer (process_directory True ?S ?F))
      (pass_filesystem (process_directory True ?S ?F)) = [?e]"
    unfolding s1 f1 added_renamed_def r1 by (rule p2)
  show ?thesis
    using t [THEN conjunct2, THEN conjunct2, THEN conjunct1] unfolding a1 a2 by simp
qed

section \<open>The dry run as a preview of the committed pass\<close>

lemma process_file_database:
  "game_database (pass_renamer (process_file dry_run pkg_file state))
     = game_database (pass_renamer state)"
  by (cases state)
     (auto simp: process_file_cases pass_renamer_def split: option.splits sum.splits)

lemma process_files_append:
  "process_files dry_run (xs @ ys) state = process_files dry_run ys (process_files dry_run xs state)"
  by (induction xs arbitrary: state) simp_all

























end
